theory Spec2Isabelle
  imports Complex_Main
begin

section \<open>Values\<close>

text \<open>
  The program computes on NumPy float64 arrays. A finite float is modelled by the real
  number it denotes (rounding is outside the model). The two non-finite values the
  source can produce by itself are kept apart: \<open>float('inf')\<close>, the initial best AIC of
  the grid search, and the NaN that \<open>np.average\<close> returns for an empty selection.
\<close>

datatype pyfloat = Num real | PosInf | NaN

text \<open>The exceptions the modelled code and the libraries it calls can raise.\<close>

datatype error = IndexError | AttributeError | KeyError | ValueError | LinAlgError

text \<open>
  A two-dimensional array of shape \<open>(length (rows m), shape1 m)\<close>. The number of
  columns is stored because an array with no rows still has one.
\<close>

record matrix =
  shape1 :: nat
  rows :: "real list list"

definition wf_matrix :: "matrix \<Rightarrow> bool" where
  "wf_matrix m = list_all (\<lambda>r. length r = shape1 m) (rows m)"

section \<open>arima\_modeling.py: grid search\<close>

text \<open>
  The order \<open>(p, d, q)\<close> of a model, and what a fitted statsmodels model is to this
  program: its \<open>aic\<close> and a state that only the simulation reads.
\<close>

type_synonym order = "nat \<times> nat \<times> nat"

record 'm model_fit =
  aic :: real
  fitted_state :: 'm

text \<open>
  \<^verbatim>\<open>ARIMA(series, order=(p,0,q)).fit()\<close> is a call into statsmodels. It is a
  parameter of the model: for a series and an order it returns the fitted model or
  raises.
\<close>

type_synonym 'm fitter = "real list \<Rightarrow> order \<Rightarrow> error + 'm model_fit"

text \<open>
  The variables of the search loop. \<open>fit_calls\<close> is not a variable of the source: it
  records, in order, the orders with which the fitting routine has been called.
\<close>

record 'm search =
  best_aic :: pyfloat
  best_order :: "order option"
  best_model :: "'m model_fit option"
  fit_calls :: "order list"

definition search_start :: "'m search" where
  "search_start =
     \<lparr>best_aic = PosInf, best_order = None, best_model = None, fit_calls = []\<rparr>"

text \<open>\<^verbatim>\<open>model_fit.aic < best_aic\<close> on floats: nothing is below NaN.\<close>

fun float_less :: "real \<Rightarrow> pyfloat \<Rightarrow> bool" where
  "float_less x (Num y) = (x < y)"
| "float_less x PosInf = True"
| "float_less x NaN = False"

text \<open>
  The body of the inner loop (lines 29 to 41): fit, compare, and on any exception
  \<open>continue\<close>.
\<close>

definition try_candidate :: "'m fitter \<Rightarrow> real list \<Rightarrow> 'm search \<Rightarrow> nat \<Rightarrow> nat \<Rightarrow> 'm search" where
  "try_candidate ARIMA_fit series st p q =
     (let called = st\<lparr>fit_calls := fit_calls st @ [(p, 0, q)]\<rparr>
      in case ARIMA_fit series (p, 0, q) of
           Inl e \<Rightarrow> called
         | Inr fitted \<Rightarrow>
             if float_less (aic fitted) (best_aic called)
             then called\<lparr>best_aic := Num (aic fitted),
                         best_order := Some (p, 0, q),
                         best_model := Some fitted\<rparr>
             else called)"

text \<open>The two nested loops over \<open>range(0, 6)\<close>.\<close>

definition grid_search :: "'m fitter \<Rightarrow> real list \<Rightarrow> 'm search" where
  "grid_search ARIMA_fit series =
     foldl (\<lambda>st p. foldl (\<lambda>st q. try_candidate ARIMA_fit series st p q) st [0..<6])
       search_start [0..<6]"

text \<open>
  \<open>fit_arima\<close>: the printed lines and the returned triple
  \<open>(best_model, best_order, best_model)\<close>, or \<open>(None, None, None)\<close>. Every exception of a
  fit is caught in the loop, and nothing else in the body raises, so the outer handler
  (lines 52 to 54) is never entered.
\<close>

datatype fit_message =
    Could_not_find_model
  | Best_parameters "order option"
  | Best_aic pyfloat

definition fit_arima ::
  "'m fitter \<Rightarrow> real list \<Rightarrow>
     fit_message list \<times> ('m model_fit option \<times> order option \<times> 'm model_fit option)" where
  "fit_arima ARIMA_fit series =
     (let st = grid_search ARIMA_fit series
      in case best_model st of
           None \<Rightarrow> ([Could_not_find_model], (None, None, None))
         | Some bm \<Rightarrow>
             ([Best_parameters (best_order st), Best_aic (best_aic st)],
              (Some bm, best_order st, Some bm)))"

text \<open>
  The scan order of the specification: \<open>p\<close> in the outer loop, \<open>q\<close> in the inner one,
  both from 0 to 5, and \<open>d = 0\<close>.
\<close>

definition scan_order :: "order list" where
  "scan_order = concat (map (\<lambda>p. map (\<lambda>q. (p, 0, q)) [0..<6]) [0..<6])"

text \<open>
  What the search has established after the pairs \<open>pqs\<close>, in this order: the calls made,
  and either that every fit raised or which fit is the first of least AIC.
\<close>

definition best_so_far :: "'m fitter \<Rightarrow> real list \<Rightarrow> (nat \<times> nat) list \<Rightarrow> 'm search \<Rightarrow> bool" where
  "best_so_far A s pqs st \<longleftrightarrow>
     fit_calls st = map (\<lambda>(p, q). (p, 0, q)) pqs
     \<and> (case best_model st of
          None \<Rightarrow> best_aic st = PosInf \<and> best_order st = None
                   \<and> (\<forall>j < length pqs. \<exists>e. A s (fst (pqs ! j), 0, snd (pqs ! j)) = Inl e)
        | Some bm \<Rightarrow> best_aic st = Num (aic bm)
            \<and> (\<exists>i < length pqs.
                 best_order st = Some (fst (pqs ! i), 0, snd (pqs ! i))
                 \<and> A s (fst (pqs ! i), 0, snd (pqs ! i)) = Inr bm
                 \<and> (\<forall>j < length pqs. \<forall>m. A s (fst (pqs ! j), 0, snd (pqs ! j)) = Inr m
                       \<longrightarrow> aic bm \<le> aic m \<and> (j < i \<longrightarrow> aic bm < aic m))))"

text \<open>Two fitting routines on which the theorems are exercised.\<close>

definition example_fitter :: "unit fitter" where
  "example_fitter series ord =
     (case ord of (p, d, q) \<Rightarrow>
        if q = 0 then Inl LinAlgError
        else Inr \<lparr>aic = real (max p 1), fitted_state = ()\<rparr>)"

definition failing_fitter :: "unit fitter" where
  "failing_fitter series ord = Inl ValueError"

section \<open>arima\_modeling.py: back to the original scale\<close>

text \<open>
  \<open>np.cumsum\<close> of a one-dimensional array: a running sum from left to right, the first
  element being the first input.
\<close>

fun cumsum_from :: "real \<Rightarrow> real list \<Rightarrow> real list" where
  "cumsum_from acc [] = []"
| "cumsum_from acc (x # xs) = (acc + x) # cumsum_from (acc + x) xs"

definition cumsum :: "real list \<Rightarrow> real list" where
  "cumsum xs = cumsum_from 0 xs"

text \<open>\<open>np.cumsum(a, axis=1)\<close>: the running sum along each row.\<close>

definition cumsum_axis1 :: "matrix \<Rightarrow> matrix" where
  "cumsum_axis1 m = m\<lparr>rows := map cumsum (rows m)\<rparr>"

text \<open>Broadcasting \<open>array + scalar\<close>.\<close>

definition add_scalar :: "real list \<Rightarrow> real \<Rightarrow> real list" where
  "add_scalar xs v = map (\<lambda>x. x + v) xs"

definition add_scalar2 :: "matrix \<Rightarrow> real \<Rightarrow> matrix" where
  "add_scalar2 m v = m\<lparr>rows := map (\<lambda>r. add_scalar r v) (rows m)\<rparr>"

text \<open>
  Lines 108 to 112 of \<open>transform_to_original_scale\<close>:
  \<^verbatim>\<open>forecast_original = np.cumsum(forecast) + last_original_value\<close> and
  \<^verbatim>\<open>simulated_paths_original = np.cumsum(simulated_paths, axis=1) + last_original_value\<close>.
\<close>

definition forecast_original :: "real list \<Rightarrow> real \<Rightarrow> real list" where
  "forecast_original forecast last_original_value =
     add_scalar (cumsum forecast) last_original_value"

definition simulated_paths_original :: "matrix \<Rightarrow> real \<Rightarrow> matrix" where
  "simulated_paths_original simulated_paths last_original_value =
     add_scalar2 (cumsum_axis1 simulated_paths) last_original_value"

section \<open>arima\_modeling.py: forecast dates\<close>

text \<open>
  A date is the number of days since 1970-01-01, a Thursday; times of day and time
  zones are not modelled. \<open>weekday\<close> is Python's: Monday is 0, Sunday is 6.
\<close>

definition weekday :: "int \<Rightarrow> int" where
  "weekday d = (d + 3) mod 7"

text \<open>
  \<^verbatim>\<open>date + BDay(n)\<close> of pandas, for \<open>n \<ge> 1\<close>: \<open>n\<close> times the next day that is neither
  a Saturday nor a Sunday.
\<close>

definition next_bday :: "int \<Rightarrow> int" where
  "next_bday d = (if weekday d = 4 then d + 3 else if weekday d = 5 then d + 2 else d + 1)"

definition bday_add :: "int \<Rightarrow> nat \<Rightarrow> int" where
  "bday_add d n = (next_bday ^^ n) d"

text \<open>
  \<^verbatim>\<open>USFederalHolidayCalendar().holidays(start, end)\<close>: the holidays of the calendar
  from \<open>start\<close> to \<open>end\<close>, both included, in order. The calendar of pandas is a
  parameter of the model: the predicate that holds of the days it observes.
\<close>

definition holidays_between :: "(int \<Rightarrow> bool) \<Rightarrow> int \<Rightarrow> int \<Rightarrow> int list" where
  "holidays_between calendar start end = filter calendar [start..end]"

lemma next_bday_greater: "d < next_bday d"
  by (simp add: next_bday_def)

lemma weekday_add: "weekday (d + k) = (weekday d + k) mod 7"
  unfolding weekday_def by (simp add: mod_simps add.assoc add.commute [of 3 k])

lemma weekday_range: "0 \<le> weekday d \<and> weekday d < 7"
  by (simp add: weekday_def)

lemma weekday_next_bday: "weekday (next_bday d) < 5"
proof -
  from weekday_range [of d]
  consider "weekday d = 0" | "weekday d = 1" | "weekday d = 2" | "weekday d = 3"
    | "weekday d = 4" | "weekday d = 5" | "weekday d = 6"
    by linarith
  then show ?thesis
    by cases (simp_all add: next_bday_def weekday_add)
qed

text \<open>The loop of lines 100 to 104.\<close>

function date_loop :: "int list \<Rightarrow> nat \<Rightarrow> int \<Rightarrow> int list \<Rightarrow> int list" where
  "date_loop holidays n current_date forecast_dates =
     (if length forecast_dates < n
      then date_loop holidays n (bday_add current_date 1)
             (if weekday current_date < 5 \<and> current_date \<notin> set holidays
              then forecast_dates @ [current_date]
              else forecast_dates)
      else forecast_dates)"
  by pat_completeness auto
termination
proof (relation "measure (\<lambda>(holidays, n, current_date, forecast_dates).
          2 * (n - length forecast_dates)
          + 2 * length (filter (\<lambda>h. current_date \<le> h) holidays)
          + (if weekday current_date < 5 then 0 else 1))")
  show "wf (measure (\<lambda>(holidays, n, current_date, forecast_dates).
          2 * (n - length forecast_dates)
          + 2 * length (filter (\<lambda>h. current_date \<le> h) holidays)
          + (if weekday current_date < 5 then 0 else 1)))"
    by simp
next
  fix holidays :: "int list" and n :: nat and current_date :: int and forecast_dates :: "int list"
  assume more: "length forecast_dates < n"
  let ?next = "bday_add current_date 1"
  have nx: "?next = next_bday current_date" by (simp add: bday_add_def)
  have wd: "weekday ?next < 5" unfolding nx by (rule weekday_next_bday)
  have gt: "current_date < ?next" unfolding nx by (rule next_bday_greater)
  have mono: "length (filter (\<lambda>h. ?next \<le> h) holidays)
              \<le> length (filter (\<lambda>h. current_date \<le> h) holidays)"
  proof -
    have "filter (\<lambda>h. ?next \<le> h) holidays
          = filter (\<lambda>h. ?next \<le> h) (filter (\<lambda>h. current_date \<le> h) holidays)"
      using gt by (auto intro: filter_cong)
    then show ?thesis by (metis length_filter_le)
  qed
  have strict: "length (filter (\<lambda>h. ?next \<le> h) holidays)
              < length (filter (\<lambda>h. current_date \<le> h) holidays)"
    if "current_date \<in> set holidays"
  proof -
    have "filter (\<lambda>h. ?next \<le> h) holidays
          = filter (\<lambda>h. ?next \<le> h) (filter (\<lambda>h. current_date \<le> h) holidays)"
      using gt by (auto intro: filter_cong)
    moreover have "current_date \<in> set (filter (\<lambda>h. current_date \<le> h) holidays)"
      using that by simp
    moreover have "\<not> ?next \<le> current_date" using gt by simp
    ultimately show ?thesis by (metis length_filter_less)
  qed
  show "((holidays, n, ?next,
          if weekday current_date < 5 \<and> current_date \<notin> set holidays
          then forecast_dates @ [current_date] else forecast_dates),
         (holidays, n, current_date, forecast_dates))
        \<in> measure (\<lambda>(holidays, n, current_date, forecast_dates).
          2 * (n - length forecast_dates)
          + 2 * length (filter (\<lambda>h. current_date \<le> h) holidays)
          + (if weekday current_date < 5 then 0 else 1))"
  proof (cases "weekday current_date < 5")
    case True
    show ?thesis
    proof (cases "current_date \<in> set holidays")
      case True
      with strict [OF True] wd \<open>weekday current_date < 5\<close> show ?thesis by simp
    next
      case False
      with mono wd more \<open>weekday current_date < 5\<close> show ?thesis by simp
    qed
  next
    case False
    with mono wd show ?thesis by simp
  qed
qed

declare date_loop.simps [simp del]

text \<open>Lines 93 to 106: the holidays of the window, then the loop from the next business day.\<close>

definition forecast_dates_from :: "(int \<Rightarrow> bool) \<Rightarrow> int \<Rightarrow> nat \<Rightarrow> int list" where
  "forecast_dates_from calendar last_date n =
     (let holidays = holidays_between calendar last_date (bday_add last_date (n + 10))
      in date_loop holidays n (bday_add last_date 1) [])"

text \<open>
  \<open>transform_to_original_scale\<close> as a whole; \<open>forecast.shape[0]\<close> is the number of
  steps.
\<close>

definition transform_to_original_scale ::
  "(int \<Rightarrow> bool) \<Rightarrow> real list \<Rightarrow> matrix \<Rightarrow> real \<Rightarrow> int
     \<Rightarrow> real list \<times> matrix \<times> int list" where
  "transform_to_original_scale calendar forecast simulated_paths last_original_value last_date =
     (forecast_original forecast last_original_value,
      simulated_paths_original simulated_paths last_original_value,
      forecast_dates_from calendar last_date (length forecast))"

text \<open>
  The day number of a date of the Gregorian calendar, and the days that the federal
  calendar observes from Christmas 2022 to Martin Luther King Day 2024.
\<close>

definition days_from_civil :: "int \<Rightarrow> int \<Rightarrow> int \<Rightarrow> int" where
  "days_from_civil y m d =
     (let y' = (if m \<le> 2 then y - 1 else y);
          era = y' div 400;
          yoe = y' - era * 400;
          doy = (153 * (if m > 2 then m - 3 else m + 9) + 2) div 5 + d - 1;
          doe = yoe * 365 + yoe div 4 - yoe div 100 + doy
      in era * 146097 + doe - 719468)"

definition federal_holidays_2023 :: "int list" where
  "federal_holidays_2023 =
     [days_from_civil 2022 12 26, days_from_civil 2023 1 2, days_from_civil 2023 1 16,
      days_from_civil 2023 2 20, days_from_civil 2023 5 29, days_from_civil 2023 6 19,
      days_from_civil 2023 7 4, days_from_civil 2023 9 4, days_from_civil 2023 10 9,
      days_from_civil 2023 11 10, days_from_civil 2023 11 23, days_from_civil 2023 12 25,
      days_from_civil 2024 1 1, days_from_civil 2024 1 15]"

text \<open>The calendar restricted to that period, on which the date generation is exercised.\<close>

definition calendar_2023 :: "int \<Rightarrow> bool" where
  "calendar_2023 d = (d \<in> set federal_holidays_2023)"

section \<open>data\_preparation.py: stationarity\<close>

text \<open>
  The data of a ticker is a pandas Series when it comes from the download and a NumPy
  array once \<open>np.diff\<close> has been applied. The difference matters: a Series has a
  method \<open>diff\<close>, an array has none.
\<close>

datatype series_value = Series "real list" | NDArray "real list"

fun values_of :: "series_value \<Rightarrow> real list" where
  "values_of (Series xs) = xs"
| "values_of (NDArray xs) = xs"

text \<open>
  \<open>adfuller\<close> is a call into statsmodels, and a parameter of the model: for the values
  of a series it returns the p-value of the test (\<open>result[1]\<close>) or raises, as it does
  on a sample that is too short.
\<close>

type_synonym adf_test = "real list \<Rightarrow> error + real"

text \<open>\<open>check_stationarity\<close>: \<^verbatim>\<open>return p_value <= 0.05, p_value\<close>.\<close>

definition check_stationarity :: "adf_test \<Rightarrow> series_value \<Rightarrow> error + (bool \<times> real)" where
  "check_stationarity adfuller series =
     (case adfuller (values_of series) of
        Inl e \<Rightarrow> Inl e
      | Inr p_value \<Rightarrow> Inr (p_value \<le> 5 / 100, p_value))"

text \<open>
  First differences. \<open>np.diff\<close> takes a Series or an array and returns an array;
  \<open>difference_series\<close> is \<^verbatim>\<open>series.diff().dropna()\<close>, which drops the undefined
  first entry of a Series and raises AttributeError on an array.
\<close>

definition diffs :: "real list \<Rightarrow> real list" where
  "diffs xs = map (\<lambda>(a, b). b - a) (zip xs (tl xs))"

definition np_diff :: "series_value \<Rightarrow> series_value" where
  "np_diff a = NDArray (diffs (values_of a))"

fun difference_series :: "series_value \<Rightarrow> error + series_value" where
  "difference_series (Series xs) = Inr (Series (diffs xs))"
| "difference_series (NDArray xs) = Inl AttributeError"

text \<open>The variables of the loop of \<open>prepare_stationary_data\<close> (lines 64 to 77) and its body.\<close>

record prep_state =
  current_data :: series_value
  is_stationary :: bool
  diff_order :: nat

definition loop_body :: "adf_test \<Rightarrow> prep_state \<Rightarrow> error + prep_state" where
  "loop_body adfuller st =
     (case adfuller (values_of (current_data st)) of
        Inl e \<Rightarrow> Inl e
      | Inr p_value \<Rightarrow>
          if p_value < 5 / 100 then Inr (st\<lparr>is_stationary := True\<rparr>)
          else Inr (st\<lparr>current_data := np_diff (current_data st),
                         diff_order := diff_order st + 1\<rparr>))"

text \<open>\<^verbatim>\<open>while not is_stationary and diff_order < 3\<close>.\<close>

function differencing_loop :: "adf_test \<Rightarrow> prep_state \<Rightarrow> error + prep_state" where
  "differencing_loop adfuller st =
     (if \<not> is_stationary st \<and> diff_order st < 3
      then (case loop_body adfuller st of
              Inl e \<Rightarrow> Inl e
            | Inr st' \<Rightarrow> differencing_loop adfuller st')
      else Inr st)"
  by pat_completeness auto
termination
proof (relation "measure (\<lambda>(adfuller, st). if is_stationary st then 0 else 4 - diff_order st)")
  show "wf (measure (\<lambda>(adfuller, st). if is_stationary st then 0 else 4 - diff_order st))"
    by simp
next
  fix adfuller :: adf_test and st st' :: prep_state
  assume "\<not> is_stationary st \<and> diff_order st < 3" and "loop_body adfuller st = Inr st'"
  then show "((adfuller, st'), (adfuller, st))
      \<in> measure (\<lambda>(adfuller, st). if is_stationary st then 0 else 4 - diff_order st)"
    by (auto simp: loop_body_def split: sum.splits if_splits)
qed

declare differencing_loop.simps [simp del]

text \<open>
  The work on one ticker: the loop, then lines 80 to 85. When the loop ends without
  stationarity the source differences once more, through \<open>difference_series\<close>.
\<close>

definition prepare_series :: "adf_test \<Rightarrow> series_value \<Rightarrow> error + series_value" where
  "prepare_series adfuller series =
     (case differencing_loop adfuller
             \<lparr>current_data = series, is_stationary = False, diff_order = 0\<rparr> of
        Inl e \<Rightarrow> Inl e
      | Inr st \<Rightarrow>
          if \<not> is_stationary st then difference_series (current_data st)
          else Inr (current_data st))"

text \<open>
  \<open>prepare_stationary_data\<close>: the loop over \<open>tickers.keys()\<close>, \<open>data[ticker]\<close> raising
  KeyError for a ticker without data. The progress lines it prints are not modelled.
\<close>

fun prepare_tickers ::
  "adf_test \<Rightarrow> (string \<rightharpoonup> series_value) \<Rightarrow> string list \<Rightarrow> (string \<rightharpoonup> series_value)
     \<Rightarrow> error + (string \<rightharpoonup> series_value)" where
  "prepare_tickers adfuller data [] stationary_data = Inr stationary_data"
| "prepare_tickers adfuller data (ticker # rest) stationary_data =
     (case data ticker of
        None \<Rightarrow> Inl KeyError
      | Some series \<Rightarrow>
          (case prepare_series adfuller series of
             Inl e \<Rightarrow> Inl e
           | Inr current \<Rightarrow>
               prepare_tickers adfuller data rest (stationary_data(ticker \<mapsto> current))))"

definition prepare_stationary_data ::
  "adf_test \<Rightarrow> (string \<rightharpoonup> series_value) \<Rightarrow> string list \<Rightarrow> error + (string \<rightharpoonup> series_value)" where
  "prepare_stationary_data adfuller data tickers = prepare_tickers adfuller data tickers Map.empty"

section \<open>main.py: threshold weighting\<close>

text \<open>The line the weighting prints when it falls back to all paths.\<close>

datatype message = No_paths_meet_threshold real

text \<open>\<^verbatim>\<open>mask = weights >= threshold\<close>, elementwise.\<close>

definition threshold_mask :: "real list \<Rightarrow> real \<Rightarrow> bool list" where
  "threshold_mask weights threshold = map (\<lambda>w. threshold \<le> w) weights"

text \<open>Python's \<open>any\<close> and \<^verbatim>\<open>np.ones_like(weights, dtype=bool)\<close>.\<close>

definition any_true :: "bool list \<Rightarrow> bool" where
  "any_true bmask = list_ex (\<lambda>b. b) bmask"

definition ones_like :: "real list \<Rightarrow> bool list" where
  "ones_like weights = replicate (length weights) True"

text \<open>
  \<^verbatim>\<open>simulated_paths[mask]\<close>: the rows at which the mask is true, in order. NumPy
  raises IndexError when the mask is not as long as the first axis.
\<close>

definition mask_select :: "matrix \<Rightarrow> bool list \<Rightarrow> error + matrix" where
  "mask_select m bmask =
     (if length bmask \<noteq> length (rows m) then Inl IndexError
      else Inr (m\<lparr>rows := map fst (filter snd (zip (rows m) bmask))\<rparr>))"

text \<open>
  \<^verbatim>\<open>np.average(a, axis=0)\<close> with no weights: the mean of each column; a column of
  an array with no rows has mean NaN.
\<close>

definition average_axis0 :: "matrix \<Rightarrow> pyfloat list" where
  "average_axis0 m =
     map (\<lambda>j. if rows m = [] then NaN
              else Num (sum_list (map (\<lambda>r. r ! j) (rows m)) / real (length (rows m))))
       [0..<shape1 m]"

text \<open>
  \<open>calculate_threshold_weighted_forecast\<close> (main.py, and the same text in
  fix\_forecasts.py and process\_adoption\_forecasts.py). The result is the list of
  printed lines and the returned array or the exception raised.
\<close>

definition calculate_threshold_weighted_forecast ::
  "matrix \<Rightarrow> real list \<Rightarrow> real \<Rightarrow> message list \<times> (error + pyfloat list)" where
  "calculate_threshold_weighted_forecast simulated_paths weights threshold =
     (let mask0 = threshold_mask weights threshold;
          (printed, bmask) =
            (if \<not> any_true mask0
             then ([No_paths_meet_threshold threshold], ones_like weights)
             else ([], mask0))
      in (printed,
          case mask_select simulated_paths bmask of
            Inl e \<Rightarrow> Inl e
          | Inr filtered_paths \<Rightarrow> Inr (average_axis0 filtered_paths)))"

text \<open>The arithmetic mean of a non-empty list of numbers, as the specification words it.\<close>

definition arithmetic_mean :: "real list \<Rightarrow> real" where
  "arithmetic_mean xs = sum_list xs / real (length xs)"

section \<open>main.py and fix\_forecasts.py: the stored weighted forecasts\<close>

text \<open>
  The forecast file as a typed dictionary: a field is \<open>None\<close> when the key is absent.
  An entry of \<open>arima_forecast\<close> carries its date, the ARIMA value and, once written,
  the two weighted values of its step.
\<close>

record forecast_entry =
  entry_date :: string
  entry_arima_forecast :: real
  entry_threshold_weighted_forecast :: "pyfloat option"
  entry_chatgpt_weighted_forecast :: "pyfloat option"

record forecasts_data =
  simulated_paths :: "matrix option"
  arima_forecast :: "forecast_entry list option"
  weighted_forecast :: "pyfloat list option"
  threshold_weighted_forecast :: "pyfloat list option"
  chatgpt_weighted_forecast :: "pyfloat list option"
  chatgpt_threshold :: "real option"

text \<open>
  main.py, lines 143 to 190: the two weightings, and their storing in the forecast file
  when that file exists (\<open>forecast_file\<close> is \<open>None\<close> when it does not). The plotting
  between the two is not modelled. An exception of a weighting leaves \<open>main\<close>.
\<close>

definition main_weighted_forecasts ::
  "matrix \<Rightarrow> real list \<Rightarrow> real \<Rightarrow> forecasts_data option
     \<Rightarrow> message list \<times> (error + forecasts_data option)" where
  "main_weighted_forecasts paths_original probabilities user_threshold forecast_file =
     (case calculate_threshold_weighted_forecast paths_original probabilities 2 of
        (printed1, Inl e) \<Rightarrow> (printed1, Inl e)
      | (printed1, Inr threshold_weighted) \<Rightarrow>
          (case calculate_threshold_weighted_forecast paths_original probabilities
                  user_threshold of
             (printed2, Inl e) \<Rightarrow> (printed1 @ printed2, Inl e)
           | (printed2, Inr chatgpt_weighted) \<Rightarrow>
               (printed1 @ printed2,
                Inr (case forecast_file of
                       None \<Rightarrow> None
                     | Some forecast_data \<Rightarrow>
                         Some (forecast_data
                           \<lparr>weighted_forecast := None,
                            threshold_weighted_forecast := Some threshold_weighted,
                            chatgpt_weighted_forecast := Some chatgpt_weighted,
                            chatgpt_threshold := Some user_threshold\<rparr>)))))"

text \<open>
  fix\_forecasts.py, \<open>recalculate_weighted_forecasts\<close>: \<open>analyses\<close> holds the
  probabilities of the analysis file, \<open>None\<close> when it has no analyses. The handler of
  the function turns every exception into the return of the data as they were.
\<close>

definition update_entries ::
  "pyfloat list \<Rightarrow> pyfloat list \<Rightarrow> forecast_entry list \<Rightarrow> forecast_entry list" where
  "update_entries threshold_weighted chatgpt_weighted entries =
     map (\<lambda>(i, entry).
            entry\<lparr>entry_threshold_weighted_forecast :=
                     (if i < length threshold_weighted then Some (threshold_weighted ! i)
                      else entry_threshold_weighted_forecast entry),
                   entry_chatgpt_weighted_forecast :=
                     (if i < length chatgpt_weighted then Some (chatgpt_weighted ! i)
                      else entry_chatgpt_weighted_forecast entry)\<rparr>)
       (enumerate 0 entries)"

definition recalculate_weighted_forecasts ::
  "forecasts_data \<Rightarrow> real list option \<Rightarrow> message list \<times> forecasts_data" where
  "recalculate_weighted_forecasts fd analyses =
     (case simulated_paths fd of
        None \<Rightarrow> ([], fd)
      | Some paths \<Rightarrow>
          if rows paths = [] then ([], fd)
          else
            (case analyses of
               None \<Rightarrow> ([], fd)
             | Some probabilities \<Rightarrow>
                 (let new_threshold = (case chatgpt_threshold fd of None \<Rightarrow> 6 | Some t \<Rightarrow> t)
                  in case calculate_threshold_weighted_forecast paths probabilities 4 of
                       (printed1, Inl e) \<Rightarrow> (printed1, fd)
                     | (printed1, Inr threshold_weighted) \<Rightarrow>
                         (case calculate_threshold_weighted_forecast paths probabilities
                                 new_threshold of
                            (printed2, Inl e) \<Rightarrow> (printed1 @ printed2, fd)
                          | (printed2, Inr chatgpt_weighted) \<Rightarrow>
                              (case arima_forecast fd of
                                 None \<Rightarrow> (printed1 @ printed2, fd)
                               | Some entries \<Rightarrow>
                                   (printed1 @ printed2,
                                    fd\<lparr>arima_forecast :=
                                          Some (update_entries threshold_weighted
                                                  chatgpt_weighted entries),
                                        threshold_weighted_forecast := Some threshold_weighted,
                                        chatgpt_weighted_forecast := Some chatgpt_weighted\<rparr>))))))"

text \<open>A path matrix and a forecast file on which the theorems are exercised.\<close>

definition example_paths :: matrix where
  "example_paths = \<lparr>shape1 = 1, rows = [[10], [20]]\<rparr>"

definition example_file :: forecasts_data where
  "example_file =
     \<lparr>simulated_paths = Some example_paths,
      arima_forecast = Some [\<lparr>entry_date = ''2024-01-02'', entry_arima_forecast = 12,
                              entry_threshold_weighted_forecast = None,
                              entry_chatgpt_weighted_forecast = None\<rparr>],
      weighted_forecast = None,
      threshold_weighted_forecast = None,
      chatgpt_weighted_forecast = None,
      chatgpt_threshold = Some 5\<rparr>"

section \<open>Properties of the grid search\<close>

lemma nested_loops_as_product:
  "foldl (\<lambda>st p. foldl (\<lambda>st q. f st p q) st qs) st ps
   = foldl (\<lambda>st (p, q). f st p q) st (List.product ps qs)"
proof (induction ps arbitrary: st)
  case Nil
  then show ?case by simp
next
  case (Cons p ps)
  have "foldl (\<lambda>st (p, q). f st p q) st (map (Pair p) qs) = foldl (\<lambda>st q. f st p q) st qs" for st
    by (induction qs arbitrary: st) simp_all
  with Cons show ?case by simp
qed

lemma best_so_far_start: "best_so_far A s [] search_start"
  by (simp add: best_so_far_def search_start_def)

lemma best_so_farI:
  assumes "fit_calls st = map (\<lambda>(p, q). (p, 0, q)) pqs"
    and "best_model st = Some bm" and "best_aic st = Num (aic bm)"
    and "i < length pqs"
    and "best_order st = Some (fst (pqs ! i), 0, snd (pqs ! i))"
    and "A s (fst (pqs ! i), 0, snd (pqs ! i)) = Inr bm"
    and "\<And>j m. j < length pqs \<Longrightarrow> A s (fst (pqs ! j), 0, snd (pqs ! j)) = Inr m
           \<Longrightarrow> aic bm \<le> aic m \<and> (j < i \<longrightarrow> aic bm < aic m)"
  shows "best_so_far A s pqs st"
  using assms unfolding best_so_far_def by auto

lemma best_so_far_step:
  assumes inv: "best_so_far A s pqs st"
  shows "best_so_far A s (pqs @ [(p, q)]) (try_candidate A s st p q)"
proof (cases "A s (p, 0, q)")
  case (Inl e)
  with inv show ?thesis
    by (auto simp: best_so_far_def try_candidate_def nth_append less_Suc_eq
        split: option.splits)
next
  case (Inr m)
  let ?pqs = "pqs @ [(p, q)]"
  from inv have fc: "fit_calls st = map (\<lambda>(p, q). (p, 0, q)) pqs"
    by (simp add: best_so_far_def)
  have last: "?pqs ! length pqs = (p, q)" by simp
  show ?thesis
  proof (cases "best_model st")
    case None
    with inv have fails: "\<And>j. j < length pqs \<Longrightarrow> \<exists>e. A s (fst (pqs ! j), 0, snd (pqs ! j)) = Inl e"
      and ba: "best_aic st = PosInf"
      by (auto simp: best_so_far_def)
    show ?thesis
    proof (rule best_so_farI [where i = "length pqs" and bm = m])
      fix j m'
      assume j: "j < length ?pqs" and f: "A s (fst (?pqs ! j), 0, snd (?pqs ! j)) = Inr m'"
      show "aic m \<le> aic m' \<and> (j < length pqs \<longrightarrow> aic m < aic m')"
      proof (cases "j < length pqs")
        case True
        with fails [OF True] f show ?thesis by (simp add: nth_append)
      next
        case False
        with j have "j = length pqs" by simp
        with f Inr show ?thesis by simp
      qed
    qed (simp_all add: try_candidate_def Inr ba fc)
  next
    case (Some bm)
    with inv obtain i where i: "i < length pqs"
      "best_order st = Some (fst (pqs ! i), 0, snd (pqs ! i))"
      "A s (fst (pqs ! i), 0, snd (pqs ! i)) = Inr bm"
      and others: "\<And>j m. j < length pqs \<Longrightarrow> A s (fst (pqs ! j), 0, snd (pqs ! j)) = Inr m
          \<Longrightarrow> aic bm \<le> aic m \<and> (j < i \<longrightarrow> aic bm < aic m)"
      and ba: "best_aic st = Num (aic bm)"
      by (auto simp: best_so_far_def)
    show ?thesis
    proof (cases "aic m < aic bm")
      case True
      show ?thesis
      proof (rule best_so_farI [where i = "length pqs" and bm = m])
        fix j m'
        assume j: "j < length ?pqs" and f: "A s (fst (?pqs ! j), 0, snd (?pqs ! j)) = Inr m'"
        show "aic m \<le> aic m' \<and> (j < length pqs \<longrightarrow> aic m < aic m')"
        proof (cases "j < length pqs")
          case less: True
          with f have "A s (fst (pqs ! j), 0, snd (pqs ! j)) = Inr m'" by (simp add: nth_append)
          from others [OF less this] True show ?thesis by simp
        next
          case False
          with j have "j = length pqs" by simp
          with f Inr show ?thesis by simp
        qed
      qed (simp_all add: try_candidate_def Inr ba fc True)
    next
      case False
      show ?thesis
      proof (rule best_so_farI [where i = i and bm = bm])
        fix j m'
        assume j: "j < length ?pqs" and f: "A s (fst (?pqs ! j), 0, snd (?pqs ! j)) = Inr m'"
        show "aic bm \<le> aic m' \<and> (j < i \<longrightarrow> aic bm < aic m')"
        proof (cases "j < length pqs")
          case less: True
          with f have "A s (fst (pqs ! j), 0, snd (pqs ! j)) = Inr m'" by (simp add: nth_append)
          from others [OF less this] show ?thesis .
        next
          case nless: False
          with j have "j = length pqs" by simp
          with f Inr have "m' = m" by simp
          with False \<open>j = length pqs\<close> i(1) show ?thesis by simp
        qed
      qed (use i(1) in \<open>simp_all add: try_candidate_def Inr ba fc False Some i nth_append less_SucI\<close>)
    qed
  qed
qed

lemma best_so_far_scan:
  "best_so_far A s pqs (foldl (\<lambda>st (p, q). try_candidate A s st p q) search_start pqs)"
proof (induction pqs rule: rev_induct)
  case Nil
  show ?case by (simp add: best_so_far_start)
next
  case (snoc pq pqs)
  obtain p q where "pq = (p, q)" by (cases pq)
  with best_so_far_step [OF snoc, of p q] show ?case by simp
qed

lemma best_so_far_grid:
  "best_so_far A s (List.product [0..<6] [0..<6]) (grid_search A s)"
  unfolding grid_search_def nested_loops_as_product by (rule best_so_far_scan)

lemma grid_nth: "j < 36 \<Longrightarrow> List.product [0..<6] [0..<6] ! j = (j div 6, j mod 6)"
  by (simp add: product_nth less_mult_imp_div_less)

lemma grid_calls: "map (\<lambda>(p, q). (p, 0, q)) (List.product [0..<6] [0..<6]) = scan_order"
  by (simp add: scan_order_def List.product_concat_map comp_def map_concat)


lemma grid_length: "length (List.product [0..<6] [0..<6]) = 36"
  by simp

lemma scan_order_length: "length scan_order = 36"
  using grid_calls grid_length by (metis length_map)

lemma scan_order_distinct: "distinct scan_order"
  unfolding grid_calls [symmetric]
  by (simp add: distinct_map distinct_product inj_on_def)

lemma scan_order_set: "set scan_order = {(p, 0, q) | p q. p \<le> 5 \<and> q \<le> 5}"
proof -
  have "set scan_order = {(p, 0, q) | p q. p < 6 \<and> q < 6}"
    unfolding grid_calls [symmetric] by (auto simp: image_iff)
  then show ?thesis by auto
qed

lemma grid_search_calls: "fit_calls (grid_search A s) = scan_order"
  using best_so_far_grid [of A s] by (simp add: best_so_far_def grid_calls)

lemma grid_search_none:
  assumes "best_model (grid_search A s) = None" and "p < 6" and "q < 6"
  shows "\<exists>e. A s (p, 0, q) = Inl e"
proof -
  let ?j = "6 * p + q"
  from assms have j: "?j < 36" by simp
  from assms have "List.product [0..<6] [0..<6] ! ?j = (p, q)"
    using grid_nth [OF j] by simp
  moreover from best_so_far_grid [of A s] assms(1) j
  have "\<exists>e. A s (fst (List.product [0..<6] [0..<6] ! ?j), 0,
                    snd (List.product [0..<6] [0..<6] ! ?j)) = Inl e"
    unfolding best_so_far_def by (simp only: option.case grid_length)
  ultimately show ?thesis by simp
qed

lemma lex_of_index:
  fixes i p q :: nat
  assumes "i \<le> 6 * p + q" and "q < 6"
  shows "i div 6 < p \<or> (i div 6 = p \<and> i mod 6 \<le> q)"
proof -
  from assms(1) have "i div 6 \<le> (6 * p + q) div 6" by (rule div_le_mono)
  also from assms(2) have "(6 * p + q) div 6 = p" by simp
  finally have le: "i div 6 \<le> p" .
  have "i mod 6 \<le> q" if "i div 6 = p"
  proof -
    have "i = i div 6 * 6 + i mod 6" by simp
    with that have "i = 6 * p + i mod 6" by simp
    with assms(1) show ?thesis by linarith
  qed
  with le show ?thesis by (cases "i div 6 = p") simp_all
qed

lemma best_so_farE:
  assumes "best_so_far A s pqs st" and "best_model st = Some bm"
  obtains i where "i < length pqs"
    and "best_order st = Some (fst (pqs ! i), 0, snd (pqs ! i))"
    and "A s (fst (pqs ! i), 0, snd (pqs ! i)) = Inr bm"
    and "\<And>j m. j < length pqs \<Longrightarrow> A s (fst (pqs ! j), 0, snd (pqs ! j)) = Inr m
          \<Longrightarrow> aic bm \<le> aic m \<and> (j < i \<longrightarrow> aic bm < aic m)"
  using assms unfolding best_so_far_def by auto

lemma grid_search_some:
  assumes "best_model (grid_search A s) = Some bm"
  shows "\<exists>p0 q0. p0 < 6 \<and> q0 < 6 \<and> best_order (grid_search A s) = Some (p0, 0, q0)
           \<and> A s (p0, 0, q0) = Inr bm
           \<and> (\<forall>p < 6. \<forall>q < 6. \<forall>m. A s (p, 0, q) = Inr m \<longrightarrow>
                 aic bm \<le> aic m \<and> (aic m = aic bm \<longrightarrow> p0 < p \<or> (p0 = p \<and> q0 \<le> q)))"
proof -
  let ?g = "List.product [0..<6] [0..<6]"
  from best_so_far_grid [of A s] assms
  obtain i where i': "i < length ?g"
    and bo: "best_order (grid_search A s) = Some (fst (?g ! i), 0, snd (?g ! i))"
    and fit: "A s (fst (?g ! i), 0, snd (?g ! i)) = Inr bm"
    and others: "\<And>j m. j < length ?g \<Longrightarrow> A s (fst (?g ! j), 0, snd (?g ! j)) = Inr m
          \<Longrightarrow> aic bm \<le> aic m \<and> (j < i \<longrightarrow> aic bm < aic m)"
    by (rule best_so_farE) (rule that)
  from i' have i: "i < 36" by (simp only: grid_length)
  have gi: "?g ! i = (i div 6, i mod 6)" by (rule grid_nth [OF i])
  have best: "\<forall>p < 6. \<forall>q < 6. \<forall>m. A s (p, 0, q) = Inr m \<longrightarrow>
          aic bm \<le> aic m \<and> (aic m = aic bm \<longrightarrow> i div 6 < p \<or> (i div 6 = p \<and> i mod 6 \<le> q))"
  proof (intro allI impI)
    fix p q :: nat and m
    assume p: "p < 6" and q: "q < 6" and f: "A s (p, 0, q) = Inr m"
    let ?j = "6 * p + q"
    from p q have j: "?j < 36" by simp
    then have j': "?j < length ?g" by (simp only: grid_length)
    from q have "?g ! ?j = (p, q)" using grid_nth [OF j] by simp
    with others [OF j'] f have le: "aic bm \<le> aic m" and lt: "?j < i \<Longrightarrow> aic bm < aic m"
      by simp_all
    have "i div 6 < p \<or> (i div 6 = p \<and> i mod 6 \<le> q)" if "aic m = aic bm"
    proof -
      from lt that have "i \<le> ?j" by (cases "?j < i") simp_all
      then show ?thesis using q by (rule lex_of_index)
    qed
    with le show "aic bm \<le> aic m \<and> (aic m = aic bm \<longrightarrow> i div 6 < p \<or> (i div 6 = p \<and> i mod 6 \<le> q))"
      by simp
  qed
  from i have lt: "i div 6 < 6" "i mod 6 < 6" by simp_all
  from bo gi have bo': "best_order (grid_search A s) = Some (i div 6, 0, i mod 6)" by simp
  from fit gi have fit': "A s (i div 6, 0, i mod 6) = Inr bm" by simp
  from lt bo' fit' best show ?thesis by blast
qed

text \<open>
  C1. The grid search calls the fitting routine for every pair (p, q) with p and q from
  0 to 5, with d = 0, in the scan order (36 calls). When at least one call returns a
  model, the selected model is one that a call returned, its AIC is at most that of
  every returned model, and every returned model with the same AIC comes at or after it
  in the scan order (p outer, q inner).
\<close>

theorem grid_search_selects_first_minimum:
  assumes "\<exists>p < 6. \<exists>q < 6. \<exists>m. ARIMA_fit series (p, 0, q) = Inr m"
  shows "fit_calls (grid_search ARIMA_fit series) = scan_order
   \<and> length scan_order = 36
   \<and> set scan_order = {(p, 0, q) | p q. p \<le> 5 \<and> q \<le> 5}
   \<and> (\<exists>bm p0 q0.
        snd (fit_arima ARIMA_fit series) = (Some bm, Some (p0, 0, q0), Some bm)
        \<and> p0 < 6 \<and> q0 < 6 \<and> ARIMA_fit series (p0, 0, q0) = Inr bm
        \<and> (\<forall>p < 6. \<forall>q < 6. \<forall>m. ARIMA_fit series (p, 0, q) = Inr m \<longrightarrow>
              aic bm \<le> aic m
              \<and> (aic m = aic bm \<longrightarrow> p0 < p \<or> (p0 = p \<and> q0 \<le> q))))"
proof -
  from assms obtain p q m where pq: "p < 6" "q < 6" "ARIMA_fit series (p, 0, q) = Inr m"
    by blast
  have "best_model (grid_search ARIMA_fit series) \<noteq> None"
  proof
    assume "best_model (grid_search ARIMA_fit series) = None"
    from grid_search_none [OF this pq(1,2)] pq(3) show False by simp
  qed
  then obtain bm where bm: "best_model (grid_search ARIMA_fit series) = Some bm" by blast
  from grid_search_some [OF bm] obtain p0 q0 where sel:
    "p0 < 6" "q0 < 6" "best_order (grid_search ARIMA_fit series) = Some (p0, 0, q0)"
    "ARIMA_fit series (p0, 0, q0) = Inr bm"
    "\<forall>p < 6. \<forall>q < 6. \<forall>m. ARIMA_fit series (p, 0, q) = Inr m \<longrightarrow>
        aic bm \<le> aic m \<and> (aic m = aic bm \<longrightarrow> p0 < p \<or> (p0 = p \<and> q0 \<le> q))"
    by blast
  have "snd (fit_arima ARIMA_fit series) = (Some bm, Some (p0, 0, q0), Some bm)"
    by (simp add: fit_arima_def bm sel(3))
  with sel(1,2,4,5) have "\<exists>bm p0 q0.
        snd (fit_arima ARIMA_fit series) = (Some bm, Some (p0, 0, q0), Some bm)
        \<and> p0 < 6 \<and> q0 < 6 \<and> ARIMA_fit series (p0, 0, q0) = Inr bm
        \<and> (\<forall>p < 6. \<forall>q < 6. \<forall>m. ARIMA_fit series (p, 0, q) = Inr m \<longrightarrow>
              aic bm \<le> aic m
              \<and> (aic m = aic bm \<longrightarrow> p0 < p \<or> (p0 = p \<and> q0 \<le> q)))"
    by blast
  then show ?thesis
    by (intro conjI) (simp_all add: grid_search_calls scan_order_length scan_order_set)
qed


theorem grid_search_selects_first_minimum_witness:
  "(\<exists>p < 6. \<exists>q < 6. \<exists>m. example_fitter [1, 2] (p, 0, q) = Inr m)
   \<and> snd (fit_arima example_fitter [1, 2])
         = (Some \<lparr>aic = 1, fitted_state = ()\<rparr>, Some (0, 0, 1),
            Some \<lparr>aic = 1, fitted_state = ()\<rparr>)"
proof -
  have h: "\<exists>p < 6. \<exists>q < 6. \<exists>m. example_fitter [1, 2] (p, 0, q) = Inr m"
    by (rule exI [of _ 0], simp, rule exI [of _ 1], simp add: example_fitter_def)
  from grid_search_selects_first_minimum [of example_fitter "[1, 2]", OF h]
  obtain bm p0 q0 where sel: "snd (fit_arima example_fitter [1, 2]) = (Some bm, Some (p0, 0, q0), Some bm)"
    and f0: "example_fitter [1, 2] (p0, 0, q0) = Inr bm"
    and best: "\<forall>p < 6. \<forall>q < 6. \<forall>m. example_fitter [1, 2] (p, 0, q) = Inr m \<longrightarrow>
              aic bm \<le> aic m \<and> (aic m = aic bm \<longrightarrow> p0 < p \<or> (p0 = p \<and> q0 \<le> q))"
    by (elim exE conjE)
  from f0 have q0: "q0 \<noteq> 0" and bm: "bm = \<lparr>aic = real (max p0 1), fitted_state = ()\<rparr>"
    by (auto simp: example_fitter_def split: if_splits)
  have one: "example_fitter [1, 2] (0, 0, 1) = Inr \<lparr>aic = 1, fitted_state = ()\<rparr>"
    by (simp add: example_fitter_def)
  have "(0::nat) < 6" and "(1::nat) < 6" by simp_all
  from best [rule_format, OF this one]
  have "aic bm \<le> aic \<lparr>aic = 1, fitted_state = ()\<rparr>
      \<and> (aic \<lparr>aic = 1, fitted_state = ()\<rparr> = aic bm \<longrightarrow> p0 < 0 \<or> (p0 = 0 \<and> q0 \<le> 1))" .
  with bm q0 have "p0 = 0 \<and> q0 = 1" by (cases "p0 = 0") (auto simp: max_def split: if_splits)
  with sel bm h show ?thesis by simp
qed

text \<open>
  C7. Whatever the fitting routine does on each candidate, the search calls it on all 36
  candidates of the scan order, each once; a call that raises changes none of the
  variables of the search; and \<open>fit_arima\<close> returns a triple.
\<close>

theorem grid_search_skips_failures:
  "fit_calls (grid_search ARIMA_fit series) = scan_order
   \<and> length scan_order = 36 \<and> distinct scan_order
   \<and> (\<forall>st p q e. ARIMA_fit series (p, 0, q) = Inl e \<longrightarrow>
         try_candidate ARIMA_fit series st p q = st\<lparr>fit_calls := fit_calls st @ [(p, 0, q)]\<rparr>)
   \<and> (snd (fit_arima ARIMA_fit series) = (None, None, None)
       \<or> (\<exists>bm ord. snd (fit_arima ARIMA_fit series) = (Some bm, Some ord, Some bm)))"
proof -
  have skip: "\<forall>st p q e. ARIMA_fit series (p, 0, q) = Inl e \<longrightarrow>
         try_candidate ARIMA_fit series st p q = st\<lparr>fit_calls := fit_calls st @ [(p, 0, q)]\<rparr>"
    by (simp add: try_candidate_def)
  have ret: "snd (fit_arima ARIMA_fit series) = (None, None, None)
       \<or> (\<exists>bm ord. snd (fit_arima ARIMA_fit series) = (Some bm, Some ord, Some bm))"
  proof (cases "best_model (grid_search ARIMA_fit series)")
    case None
    then show ?thesis by (simp add: fit_arima_def)
  next
    case (Some bm)
    from grid_search_some [OF Some] obtain ord
      where "best_order (grid_search ARIMA_fit series) = Some ord" by blast
    with Some show ?thesis by (cases ord) (simp add: fit_arima_def)
  qed
  from skip ret show ?thesis
    by (intro conjI) (simp_all add: grid_search_calls scan_order_length scan_order_distinct)
qed


theorem grid_search_skips_failures_witness:
  "example_fitter [1, 2] (3, 0, 0) = Inl LinAlgError
   \<and> try_candidate example_fitter [1, 2] search_start 3 0
       = search_start\<lparr>fit_calls := [(3, 0, 0)]\<rparr>
   \<and> length (fit_calls (grid_search example_fitter [1, 2])) = 36"
proof -
  have f: "example_fitter [1, 2] (3, 0, 0) = Inl LinAlgError"
    by (simp add: example_fitter_def)
  note w = grid_search_skips_failures [of example_fitter "[1, 2]"]
  from w have calls: "fit_calls (grid_search example_fitter [1, 2]) = scan_order"
    by (elim conjE)
  from w have len: "length scan_order = 36"
    by (elim conjE)
  from w have skip: "\<forall>st p q e. example_fitter [1, 2] (p, 0, q) = Inl e \<longrightarrow>
         try_candidate example_fitter [1, 2] st p q = st\<lparr>fit_calls := fit_calls st @ [(p, 0, q)]\<rparr>"
    by (elim conjE)
  from skip [rule_format, OF f, of search_start]
  have "try_candidate example_fitter [1, 2] search_start 3 0
       = search_start\<lparr>fit_calls := [(3, 0, 0)]\<rparr>"
    by (simp add: search_start_def)
  with f calls len show ?thesis by (simp add: search_start_def)
qed

text \<open>
  C8. When every one of the 36 fits raises, \<open>fit_arima\<close> prints that no model was found
  and returns \<open>(None, None, None)\<close>: no fitted model reaches the caller.
\<close>

theorem no_candidate_converges:
  assumes "\<forall>p < 6. \<forall>q < 6. \<exists>e. ARIMA_fit series (p, 0, q) = Inl e"
  shows "fit_arima ARIMA_fit series = ([Could_not_find_model], (None, None, None))"
proof (cases "best_model (grid_search ARIMA_fit series)")
  case None
  then show ?thesis by (simp add: fit_arima_def)
next
  case (Some bm)
  from grid_search_some [OF Some] obtain p0 q0
    where "p0 < 6" "q0 < 6" "ARIMA_fit series (p0, 0, q0) = Inr bm" by blast
  with assms show ?thesis by fastforce
qed

theorem no_candidate_converges_witness:
  "(\<forall>p q. \<exists>e. failing_fitter [1, 2] (p, 0, q) = Inl e)
   \<and> fit_arima failing_fitter [1, 2] = ([Could_not_find_model], (None, None, None))"
proof -
  have h: "\<forall>p < 6. \<forall>q < 6. \<exists>e. failing_fitter [1, 2] (p, 0, q) = Inl e"
    by (simp add: failing_fitter_def)
  from no_candidate_converges [of failing_fitter "[1, 2]", OF h] show ?thesis
    by (simp add: failing_fitter_def)
qed

section \<open>Properties of the rescaling\<close>

lemma length_cumsum_from: "length (cumsum_from acc xs) = length xs"
  by (induction xs arbitrary: acc) simp_all

lemma nth_cumsum_from:
  "i < length xs \<Longrightarrow> cumsum_from acc xs ! i = acc + sum_list (take (Suc i) xs)"
proof (induction xs arbitrary: acc i)
  case Nil
  then show ?case by simp
next
  case (Cons x xs)
  show ?case
  proof (cases i)
    case 0
    then show ?thesis by simp
  next
    case (Suc k)
    with Cons.prems have "k < length xs" by simp
    from Cons.IH [OF this, of "acc + x"] Suc show ?thesis by simp
  qed
qed

lemma length_forecast_original: "length (forecast_original xs a) = length xs"
  by (simp add: forecast_original_def add_scalar_def cumsum_def length_cumsum_from)

lemma nth_forecast_original:
  "i < length xs \<Longrightarrow> forecast_original xs a ! i = a + sum_list (take (Suc i) xs)"
  by (simp add: forecast_original_def add_scalar_def cumsum_def length_cumsum_from
      nth_cumsum_from)

lemma rows_simulated_paths_original:
  "rows (simulated_paths_original m a) = map (\<lambda>r. forecast_original r a) (rows m)"
  by (simp add: simulated_paths_original_def add_scalar2_def cumsum_axis1_def
      forecast_original_def)

text \<open>
  C2. The restored forecast has the length of the differenced forecast, and its value at
  each step is the anchor plus the sum of the differenced values up to and including
  that step; anchor 100 and differenced forecast [1, -0.5, 2] give [101, 100.5, 102.5].
  The restored path matrix has the shape of the simulated one, and each of its rows
  obeys the same rule.
\<close>

theorem scale_restorer_cumulative:
  "length (forecast_original xs a) = length xs
   \<and> (\<forall>i < length xs. forecast_original xs a ! i = a + sum_list (take (Suc i) xs))
   \<and> forecast_original [1, - 1 / 2, 2] 100 = [101, 201 / 2, 205 / 2]
   \<and> shape1 (simulated_paths_original m a) = shape1 m
   \<and> length (rows (simulated_paths_original m a)) = length (rows m)
   \<and> (\<forall>k < length (rows m).
        length (rows (simulated_paths_original m a) ! k) = length (rows m ! k)
        \<and> (\<forall>i < length (rows m ! k).
             rows (simulated_paths_original m a) ! k ! i
               = a + sum_list (take (Suc i) (rows m ! k))))"
proof -
  have ex: "forecast_original [1, - 1 / 2, 2] 100 = [101, 201 / 2, 205 / 2]"
    by (simp add: forecast_original_def add_scalar_def cumsum_def)
  have sh: "shape1 (simulated_paths_original m a) = shape1 m"
    by (simp add: simulated_paths_original_def add_scalar2_def cumsum_axis1_def)
  show ?thesis
    using ex sh
    by (simp add: length_forecast_original nth_forecast_original
        rows_simulated_paths_original)
qed

theorem scale_restorer_cumulative_witness:
  "forecast_original [3, 4] 10 ! 1 = 17
   \<and> rows (simulated_paths_original \<lparr>shape1 = 2, rows = [[1, 2], [5, - 7]]\<rparr> 10) ! 1 ! 1 = 8"
  using scale_restorer_cumulative [of "[3, 4]" 10 "\<lparr>shape1 = 2, rows = [[1, 2], [5, - 7]]\<rparr>"]
  by simp

section \<open>Properties of the threshold weighting\<close>

lemma zip_as_index_map:
  "length xs = length bs \<Longrightarrow> zip xs bs = map (\<lambda>i. (xs ! i, bs ! i)) [0..<length xs]"
  by (rule nth_equalityI) simp_all

lemma mask_rows_by_index:
  assumes "length xs = length bs"
  shows "map fst (filter snd (zip xs bs))
         = map (\<lambda>i. xs ! i) (filter (\<lambda>i. bs ! i) [0..<length xs])"
proof -
  have "filter snd (zip xs bs)
        = map (\<lambda>i. (xs ! i, bs ! i)) (filter (\<lambda>i. bs ! i) [0..<length xs])"
    by (simp add: zip_as_index_map [OF assms] filter_map comp_def)
  then show ?thesis by (simp add: comp_def)
qed

lemma any_true_threshold_mask:
  "any_true (threshold_mask weights t) \<longleftrightarrow> (\<exists>w \<in> set weights. t \<le> w)"
  by (simp add: any_true_def threshold_mask_def list_ex_iff)

lemma filter_threshold_mask:
  "filter (\<lambda>i. threshold_mask weights t ! i) [0..<length weights]
   = filter (\<lambda>i. t \<le> weights ! i) [0..<length weights]"
  by (rule filter_cong) (simp_all add: threshold_mask_def)

lemma selected_indices_nonempty:
  assumes "\<exists>w \<in> set weights. t \<le> w"
  shows "filter (\<lambda>i. t \<le> weights ! i) [0..<length weights] \<noteq> []"
proof -
  from assms obtain i where "i < length weights" "t \<le> weights ! i"
    by (auto simp: in_set_conv_nth)
  then have "i \<in> set (filter (\<lambda>i. t \<le> weights ! i) [0..<length weights])" by simp
  then show ?thesis by (metis empty_iff empty_set)
qed

lemma filter_ones_like:
  "map fst (filter snd (zip xs (ones_like ws))) = take (length ws) xs"
proof -
  have "zip xs (replicate n True) = map (\<lambda>x. (x, True)) (take n xs)" for n
  proof (induction xs arbitrary: n)
    case Nil
    then show ?case by simp
  next
    case (Cons x xs)
    then show ?case by (cases n) simp_all
  qed
  then show ?thesis by (simp add: ones_like_def comp_def filter_map)
qed

lemma threshold_weighting_selected:
  assumes len: "length weights = length (rows m)"
    and some: "\<exists>w \<in> set weights. t \<le> w"
  shows "calculate_threshold_weighted_forecast m weights t =
     ([], Inr (map (\<lambda>j. Num (arithmetic_mean
                 (map (\<lambda>i. rows m ! i ! j)
                    (filter (\<lambda>i. t \<le> weights ! i) [0..<length (rows m)]))))
               [0..<shape1 m]))"
proof -
  let ?sel = "filter (\<lambda>i. t \<le> weights ! i) [0..<length (rows m)]"
  have lm: "length (rows m) = length (threshold_mask weights t)"
    by (simp add: threshold_mask_def len)
  have rows_sel: "map fst (filter snd (zip (rows m) (threshold_mask weights t)))
                  = map (\<lambda>i. rows m ! i) ?sel"
    using mask_rows_by_index [OF lm] filter_threshold_mask [of weights t] len by simp
  have ne: "?sel \<noteq> []"
    using selected_indices_nonempty [OF some] len by simp
  show ?thesis
    using some ne
    by (simp add: calculate_threshold_weighted_forecast_def any_true_threshold_mask
        mask_select_def lm [symmetric] rows_sel average_axis0_def arithmetic_mean_def
        comp_def)
qed

lemma threshold_weighting_fallback:
  assumes len: "length weights = length (rows m)"
    and none: "\<forall>w \<in> set weights. w < t"
  shows "calculate_threshold_weighted_forecast m weights t =
     ([No_paths_meet_threshold t], Inr (average_axis0 m))"
proof -
  have "\<not> any_true (threshold_mask weights t)"
    using none by (auto simp: any_true_threshold_mask)
  moreover have "length (ones_like weights) = length (rows m)"
    by (simp add: ones_like_def len)
  moreover have "map fst (filter snd (zip (rows m) (ones_like weights))) = rows m"
    by (simp add: filter_ones_like len)
  ultimately show ?thesis
    by (simp add: calculate_threshold_weighted_forecast_def mask_select_def)
qed

text \<open>
  C3. For an N-by-steps path matrix and N scores of which at least one reaches the
  threshold, the weighting prints nothing and returns, for each step, the arithmetic
  mean over exactly the paths whose score is at least the threshold. Paths
  [[10,10],[20,20],[30,30]] with scores [1,5,9] and threshold 5 give [25,25].
\<close>

theorem threshold_weighting_mean_of_selected:
  assumes "wf_matrix m"
    and "length weights = length (rows m)"
    and "\<exists>w \<in> set weights. t \<le> w"
  shows "calculate_threshold_weighted_forecast m weights t =
     ([], Inr (map (\<lambda>j. Num (arithmetic_mean
                 (map (\<lambda>i. rows m ! i ! j)
                    (filter (\<lambda>i. t \<le> weights ! i) [0..<length (rows m)]))))
               [0..<shape1 m]))
   \<and> calculate_threshold_weighted_forecast
        \<lparr>shape1 = 2, rows = [[10, 10], [20, 20], [30, 30]]\<rparr> [1, 5, 9] 5
      = ([], Inr [Num 25, Num 25])"
proof -
  have "calculate_threshold_weighted_forecast
          \<lparr>shape1 = 2, rows = [[10, 10], [20, 20], [30, 30]]\<rparr> [1, 5, 9] 5
        = ([], Inr [Num 25, Num 25])"
    by (simp add: calculate_threshold_weighted_forecast_def threshold_mask_def
        any_true_def mask_select_def average_axis0_def upt_rec)
  with threshold_weighting_selected [OF assms(2,3)] show ?thesis by simp
qed

theorem threshold_weighting_mean_of_selected_witness:
  "wf_matrix \<lparr>shape1 = 2, rows = [[1, 2], [3, 4], [5, 9]]\<rparr>
   \<and> calculate_threshold_weighted_forecast
        \<lparr>shape1 = 2, rows = [[1, 2], [3, 4], [5, 9]]\<rparr> [7, 2, 6] 6
      = ([], Inr [Num 3, Num (11 / 2)])"
proof -
  have wf: "wf_matrix \<lparr>shape1 = 2, rows = [[1, 2], [3, 4], [5, 9]]\<rparr>"
    by (simp add: wf_matrix_def)
  have len: "length [7, 2, 6 :: real] = length (rows \<lparr>shape1 = 2, rows = [[1, 2], [3, 4], [5, 9]]\<rparr>)"
    by simp
  have some: "\<exists>w \<in> set [7, 2, 6 :: real]. 6 \<le> w" by simp
  from threshold_weighting_mean_of_selected [OF wf len some] wf show ?thesis
    by (simp add: arithmetic_mean_def upt_rec)
qed

text \<open>
  C4. For an N-by-steps path matrix and N scores none of which reaches the threshold,
  the weighting raises nothing: it prints the warning and returns one value per step,
  which for N > 0 is the arithmetic mean over all N paths. Scores [1,1,1] with
  threshold 4 give the mean of all three paths.
\<close>

theorem threshold_weighting_fallback_all_paths:
  assumes "wf_matrix m"
    and "length weights = length (rows m)"
    and "\<forall>w \<in> set weights. w < t"
  shows "fst (calculate_threshold_weighted_forecast m weights t)
           = [No_paths_meet_threshold t]
   \<and> (\<exists>ys. snd (calculate_threshold_weighted_forecast m weights t) = Inr ys
            \<and> length ys = shape1 m)
   \<and> (rows m \<noteq> [] \<longrightarrow>
        snd (calculate_threshold_weighted_forecast m weights t)
          = Inr (map (\<lambda>j. Num (arithmetic_mean (map (\<lambda>r. r ! j) (rows m))))
                   [0..<shape1 m]))
   \<and> calculate_threshold_weighted_forecast
        \<lparr>shape1 = 2, rows = [[10, 10], [20, 20], [30, 30]]\<rparr> [1, 1, 1] 4
      = ([No_paths_meet_threshold 4], Inr [Num 20, Num 20])"
proof -
  have "calculate_threshold_weighted_forecast
          \<lparr>shape1 = 2, rows = [[10, 10], [20, 20], [30, 30]]\<rparr> [1, 1, 1] 4
        = ([No_paths_meet_threshold 4], Inr [Num 20, Num 20])"
    by (simp add: calculate_threshold_weighted_forecast_def threshold_mask_def
        any_true_def ones_like_def mask_select_def average_axis0_def upt_rec)
  with threshold_weighting_fallback [OF assms(2,3)] show ?thesis
    by (simp add: average_axis0_def arithmetic_mean_def)
qed

theorem threshold_weighting_fallback_all_paths_witness:
  "wf_matrix \<lparr>shape1 = 1, rows = [[2], [4]]\<rparr>
   \<and> calculate_threshold_weighted_forecast \<lparr>shape1 = 1, rows = [[2], [4]]\<rparr> [1, 3] 5
      = ([No_paths_meet_threshold 5], Inr [Num 3])"
proof -
  have wf: "wf_matrix \<lparr>shape1 = 1, rows = [[2], [4]]\<rparr>"
    by (simp add: wf_matrix_def)
  have len: "length [1, 3 :: real] = length (rows \<lparr>shape1 = 1, rows = [[2], [4]]\<rparr>)"
    by simp
  have none: "\<forall>w \<in> set [1, 3 :: real]. w < 5" by simp
  from threshold_weighting_fallback_all_paths [OF wf len none] wf show ?thesis
    by (simp add: arithmetic_mean_def prod_eq_iff)
qed

section \<open>Properties of the forecast dates\<close>

text \<open>Adding business days.\<close>

lemma bday_add_0: "bday_add d 0 = d"
  by (simp add: bday_add_def)

lemma bday_add_Suc: "bday_add d (Suc k) = next_bday (bday_add d k)"
  by (simp add: bday_add_def)

lemma bday_add_1: "bday_add d 1 = next_bday d"
  by (simp add: bday_add_def)

lemma bday_add_add: "bday_add (bday_add d j) k = bday_add d (j + k)"
proof -
  have "(next_bday ^^ (k + j)) d = (next_bday ^^ k) ((next_bday ^^ j) d)"
    by (simp add: funpow_add)
  then show ?thesis by (simp add: bday_add_def add.commute)
qed

lemma weekday_bday_add: "weekday d < 5 \<Longrightarrow> weekday (bday_add d k) < 5"
  by (cases k) (simp_all add: bday_add_0 bday_add_Suc weekday_next_bday)

lemma bday_add_less: "j < k \<Longrightarrow> bday_add d j < bday_add d k"
proof (induction k)
  case 0
  then show ?case by simp
next
  case (Suc k)
  have "bday_add d k < bday_add d (Suc k)"
    by (simp add: bday_add_Suc next_bday_greater)
  with Suc show ?case by (cases "j = k") (simp_all add: less_Suc_eq)
qed

lemma distinct_bdays: "distinct (map (bday_add d) [0..<k])"
proof -
  have "inj_on (bday_add d) (set [0..<k])"
  proof (rule inj_onI)
    fix i j
    assume "bday_add d i = bday_add d j"
    with bday_add_less [of i j d] bday_add_less [of j i d] show "i = j"
      by (cases i j rule: linorder_cases) simp_all
  qed
  then show ?thesis by (simp add: distinct_map)
qed

text \<open>The next business day, by the day of the week.\<close>

lemma next_bday_midweek:
  assumes "weekday d = w" and "w < 4"
  shows "next_bday d = d + 1" and "weekday (d + 1) = w + 1"
proof -
  from assms show "next_bday d = d + 1" by (simp add: next_bday_def)
  from weekday_range [of d] assms have "0 \<le> w" by simp
  with assms weekday_add [of d 1] show "weekday (d + 1) = w + 1" by simp
qed

lemma next_bday_friday:
  assumes "weekday d = 4"
  shows "next_bday d = d + 3" and "weekday (d + 3) = 0"
proof -
  from assms show "next_bday d = d + 3" by (simp add: next_bday_def)
  from assms weekday_add [of d 3] show "weekday (d + 3) = 0" by simp
qed

text \<open>From a Monday, five business days are a week.\<close>

lemma monday_days:
  assumes "weekday d = 0"
  shows "bday_add d 1 = d + 1" and "bday_add d 2 = d + 2" and "bday_add d 3 = d + 3"
    and "bday_add d 4 = d + 4" and "bday_add d 5 = d + 7"
proof -
  from assms have "7 dvd d + 3" by (simp add: weekday_def mod_eq_0_iff_dvd)
  then obtain q where "d + 3 = 7 * q" by (rule dvdE)
  then have d: "d = 7 * q - 3" by simp
  have wd: "weekday (7 * q - 3) = 0" "weekday (7 * q - 2) = 1" "weekday (7 * q - 1) = 2"
    "weekday (7 * q) = 3" "weekday (7 * q + 1) = 4"
    by (simp_all add: weekday_def)
  have nx: "next_bday (7 * q - 3) = 7 * q - 2" "next_bday (7 * q - 2) = 7 * q - 1"
    "next_bday (7 * q - 1) = 7 * q" "next_bday (7 * q) = 7 * q + 1"
    "next_bday (7 * q + 1) = 7 * q + 4"
    by (simp_all add: next_bday_def wd)
  show "bday_add d 1 = d + 1" by (simp add: bday_add_def d nx)
  show "bday_add d 2 = d + 2" by (simp add: bday_add_def eval_nat_numeral d nx)
  show "bday_add d 3 = d + 3" by (simp add: bday_add_def eval_nat_numeral d nx)
  show "bday_add d 4 = d + 4" by (simp add: bday_add_def eval_nat_numeral d nx)
  show "bday_add d 5 = d + 7" by (simp add: bday_add_def eval_nat_numeral d nx)
qed

lemma weekday_weeks: "weekday (d + 7 * int w) = weekday d"
  using weekday_add [of d "7 * int w"] weekday_range [of d] by simp

lemma monday_weeks:
  assumes "weekday d = 0"
  shows "bday_add d (5 * w) = d + 7 * int w"
proof (induction w)
  case 0
  show ?case by (simp add: bday_add_0)
next
  case (Suc w)
  have "5 * Suc w = 5 * w + 5" by simp
  then have "bday_add d (5 * Suc w) = bday_add (bday_add d (5 * w)) 5"
    by (simp only: bday_add_add)
  also have "\<dots> = bday_add (d + 7 * int w) 5" by (simp only: Suc)
  also have "\<dots> = d + 7 * int w + 7"
    using assms by (intro monday_days) (simp add: weekday_weeks)
  finally show ?case by simp
qed

lemma monday_closed_form:
  assumes "weekday d = 0" and "r < 5"
  shows "bday_add d (5 * w + r) = d + 7 * int w + int r"
proof -
  have m: "weekday (d + 7 * int w) = 0" using assms(1) by (simp add: weekday_weeks)
  have "bday_add d (5 * w + r) = bday_add (d + 7 * int w) r"
    using monday_weeks [OF assms(1), of w] bday_add_add [of d "5 * w" r] by simp
  also have "\<dots> = d + 7 * int w + int r"
  proof -
    from assms(2) consider "r = 0" | "r = 1" | "r = 2" | "r = 3" | "r = 4" by linarith
    then show ?thesis
      using monday_days [OF m]
      by cases (simp_all add: bday_add_0)
  qed
  finally show ?thesis .
qed

text \<open>The loop keeps what it has accepted, and walks the business days in order.\<close>

lemma date_loop_prefix: "set acc \<subseteq> set (date_loop H n cur acc)"
proof (induction H n cur acc rule: date_loop.induct)
  case (1 H n cur acc)
  show ?case
  proof (cases "length acc < n")
    case True
    let ?acc = "if weekday cur < 5 \<and> cur \<notin> set H then acc @ [cur] else acc"
    from "1.IH" [OF True] have "set ?acc \<subseteq> set (date_loop H n (bday_add cur 1) ?acc)" .
    moreover have "set acc \<subseteq> set ?acc" by auto
    moreover from True have "date_loop H n cur acc = date_loop H n (bday_add cur 1) ?acc"
      by (subst date_loop.simps) simp
    ultimately show ?thesis by simp
  next
    case False
    then show ?thesis by (subst date_loop.simps) simp
  qed
qed

lemma upt_filter_prefix_length:
  assumes "k \<le> j"
  shows "length (filter P (map f [0..<k])) \<le> length (filter P (map f [0..<j]))"
proof -
  from assms have "[0..<j] = [0..<k] @ [k..<j]"
    by (metis le_add_diff_inverse upt_add_eq_append zero_le)
  then show ?thesis by simp
qed

lemma date_loop_run:
  assumes wd: "weekday cur < 5"
    and bound: "length acc + length (filter (\<lambda>d. d \<notin> set H) (map (bday_add cur) [0..<j])) < n"
    and k: "k \<le> Suc j"
  shows "date_loop H n cur acc
         = date_loop H n (bday_add cur k)
             (acc @ filter (\<lambda>d. d \<notin> set H) (map (bday_add cur) [0..<k]))"
  using k
proof (induction k)
  case 0
  show ?case by (simp add: bday_add_0)
next
  case (Suc k)
  let ?B = "bday_add cur"
  let ?acc = "acc @ filter (\<lambda>d. d \<notin> set H) (map ?B [0..<k])"
  from Suc.prems have kj: "k \<le> j" by simp
  from upt_filter_prefix_length [OF kj, of "\<lambda>d. d \<notin> set H" ?B] bound
  have len: "length ?acc < n" by simp
  have wk: "weekday (?B k) < 5" using wd by (rule weekday_bday_add)
  have "date_loop H n cur acc = date_loop H n (?B k) ?acc"
    using Suc.IH kj by simp
  also have "\<dots> = date_loop H n (bday_add (?B k) 1)
                     (if weekday (?B k) < 5 \<and> ?B k \<notin> set H then ?acc @ [?B k] else ?acc)"
    using len by (subst date_loop.simps) simp
  also have "bday_add (?B k) 1 = ?B (Suc k)"
    by (simp only: bday_add_1 bday_add_Suc)
  also have "(if weekday (?B k) < 5 \<and> ?B k \<notin> set H then ?acc @ [?B k] else ?acc)
             = acc @ filter (\<lambda>d. d \<notin> set H) (map ?B [0..<Suc k])"
    using wk by simp
  finally show ?case .
qed

text \<open>The date reached after \<open>k\<close> steps is returned when it is no known holiday and fewer
  than \<open>n\<close> dates have been accepted before it.\<close>

lemma date_loop_reaches:
  assumes wd: "weekday cur < 5"
    and bound: "length (filter (\<lambda>d. d \<notin> set H) (map (bday_add cur) [0..<k])) < n"
    and free: "bday_add cur k \<notin> set H"
  shows "bday_add cur k \<in> set (date_loop H n cur [])"
proof -
  let ?B = "bday_add cur"
  let ?acc = "filter (\<lambda>d. d \<notin> set H) (map ?B [0..<k])"
  have wk: "weekday (?B k) < 5" using wd by (rule weekday_bday_add)
  from date_loop_run [OF wd, of "[]" H k n k] bound
  have "date_loop H n cur [] = date_loop H n (?B k) ?acc" by simp
  also have "\<dots> = date_loop H n (bday_add (?B k) 1) (?acc @ [?B k])"
    using bound wk free by (subst date_loop.simps) simp
  finally have "date_loop H n cur [] = date_loop H n (bday_add (?B k) 1) (?acc @ [?B k])" .
  moreover have "?B k \<in> set (?acc @ [?B k])" by simp
  ultimately show ?thesis using date_loop_prefix by fastforce
qed

text \<open>Counting the accepted days among the first \<open>k\<close> business days.\<close>

lemma accepted_count:
  assumes "distinct hs" and "set hs \<subseteq> set H" and "set hs \<subseteq> set (map (bday_add cur) [0..<k])"
  shows "length (filter (\<lambda>d. d \<notin> set H) (map (bday_add cur) [0..<k])) + length hs \<le> k"
proof -
  let ?xs = "map (bday_add cur) [0..<k]"
  have d: "distinct ?xs" by (rule distinct_bdays)
  have "length hs = card (set hs)" using assms(1) by (simp add: distinct_card)
  also have "\<dots> \<le> card ({d. d \<in> set H} \<inter> set ?xs)"
    using assms(2,3) by (intro card_mono) auto
  also have "\<dots> = length (filter (\<lambda>d. d \<in> set H) ?xs)"
    by (rule distinct_length_filter [OF d, symmetric])
  finally have "length hs \<le> length (filter (\<lambda>d. d \<in> set H) ?xs)" .
  moreover have "length (filter (\<lambda>d. d \<in> set H) ?xs) + length (filter (\<lambda>d. d \<notin> set H) ?xs)
                 = length ?xs"
    using sum_length_filter_compl [of "\<lambda>d. d \<in> set H" ?xs] by simp
  ultimately show ?thesis by simp
qed

text \<open>The business days from a Monday, by weeks.\<close>

lemma monday_bdays_member:
  assumes mon: "weekday cur = 0" and ge: "cur \<le> h" and lt: "h < cur + 7 * int w"
    and wd: "weekday h < 5"
  shows "h \<in> set (map (bday_add cur) [0..<5 * w])"
proof -
  define off where "off = nat (h - cur)"
  define q where "q = off div 7"
  define r where "r = off mod 7"
  from ge have h: "h = cur + int off" by (simp add: off_def)
  have off: "off = 7 * q + r" by (simp add: q_def r_def)
  have "weekday h = (weekday cur + int off) mod 7" unfolding h by (rule weekday_add)
  with mon have "weekday h = int off mod 7" by simp
  also have "\<dots> = int r" by (simp add: r_def zmod_int)
  finally have r: "r < 5" using wd by simp
  from lt h off have q: "q < w" by simp
  from monday_closed_form [OF mon r, of q] h off
  have "bday_add cur (5 * q + r) = h" by simp
  moreover from q r have "5 * q + r < 5 * w" by simp
  ultimately show ?thesis by (metis atLeast0LessThan imageI lessThan_iff set_map set_upt)
qed

lemma set_holidays_between:
  "set (holidays_between calendar start end) = {d. start \<le> d \<and> d \<le> end \<and> calendar d}"
  by (auto simp: holidays_between_def)

text \<open>
  One step from a Friday: the window reaches 17 days ahead, and the date is the Monday,
  or the Tuesday when the Monday is a holiday and the Tuesday is none.
\<close>

lemma friday_window:
  assumes "weekday d = 4"
  shows "bday_add d 1 = d + 3" and "bday_add d 11 = d + 17"
proof -
  from next_bday_friday [OF assms] have nx: "next_bday d = d + 3" and mon: "weekday (d + 3) = 0"
    by simp_all
  show b1: "bday_add d 1 = d + 3" by (simp only: bday_add_1 nx)
  have "bday_add d 11 = bday_add (bday_add d 1) 10"
    by (simp add: bday_add_add)
  also have "\<dots> = bday_add (d + 3) (5 * 2 + 0)" unfolding b1 by simp
  also have "\<dots> = d + 3 + 7 * int 2 + int 0"
    using mon by (intro monday_closed_form) simp_all
  finally show "bday_add d 11 = d + 17" by simp
qed

lemma friday_anchor_monday:
  assumes fri: "weekday d = 4" and free: "\<not> calendar (d + 3)"
  shows "forecast_dates_from calendar d 1 = [d + 3]"
proof -
  let ?H = "holidays_between calendar d (d + 17)"
  from next_bday_friday [OF fri] have mon: "weekday (d + 3) = 0" by simp
  from free have nh: "d + 3 \<notin> set ?H" by (simp add: set_holidays_between)
  have "forecast_dates_from calendar d 1 = date_loop ?H 1 (d + 3) []"
    using friday_window [OF fri] by (simp add: forecast_dates_from_def)
  also have "\<dots> = date_loop ?H 1 (bday_add (d + 3) 1) [d + 3]"
    using mon nh by (subst date_loop.simps) simp
  also have "\<dots> = [d + 3]" by (subst date_loop.simps) simp
  finally show ?thesis .
qed

lemma friday_anchor_tuesday:
  assumes fri: "weekday d = 4" and hol: "calendar (d + 3)" and free: "\<not> calendar (d + 4)"
  shows "forecast_dates_from calendar d 1 = [d + 4]"
proof -
  let ?H = "holidays_between calendar d (d + 17)"
  from next_bday_friday [OF fri] have mon: "weekday (d + 3) = 0" by simp
  from monday_days(1) [OF mon] have nx: "bday_add (d + 3) 1 = d + 4" by simp
  from weekday_add [of d 4] fri have tue: "weekday (d + 4) = 1" by simp
  from hol have h: "d + 3 \<in> set ?H" by (simp add: set_holidays_between)
  from free have nh: "d + 4 \<notin> set ?H" by (simp add: set_holidays_between)
  have "forecast_dates_from calendar d 1 = date_loop ?H 1 (d + 3) []"
    using friday_window [OF fri] by (simp add: forecast_dates_from_def)
  also have "\<dots> = date_loop ?H 1 (d + 4) []"
    using h nx by (subst date_loop.simps) simp
  also have "\<dots> = date_loop ?H 1 (bday_add (d + 4) 1) [d + 4]"
    using tue nh by (subst date_loop.simps) simp
  also have "\<dots> = [d + 4]" by (subst date_loop.simps) simp
  finally show ?thesis .
qed

text \<open>The loop returns the first \<open>n\<close> business days that are not among its holidays.\<close>

lemma bday_add_Suc_shift: "bday_add d (Suc k) = bday_add (next_bday d) k"
  by (simp add: bday_add_def funpow_swap1)

lemma bdays_Cons:
  "map (bday_add d) [0..<Suc k] = d # map (bday_add (next_bday d)) [0..<k]"
proof -
  have "[0..<Suc k] = 0 # map Suc [0..<k]"
    by (simp add: upt_conv_Cons map_Suc_upt del: upt_Suc)
  then show ?thesis
    by (simp add: bday_add_0 bday_add_Suc_shift comp_def del: upt_Suc)
qed

lemma date_loop_takes:
  assumes "weekday cur < 5" and "length acc \<le> n"
    and "n - length acc \<le> length (filter (\<lambda>d. d \<notin> set H) (map (bday_add cur) [0..<k]))"
  shows "date_loop H n cur acc
         = acc @ take (n - length acc) (filter (\<lambda>d. d \<notin> set H) (map (bday_add cur) [0..<k]))"
  using assms
proof (induction k arbitrary: cur acc)
  case 0
  then have "length acc = n" by simp
  then show ?case by (subst date_loop.simps) simp
next
  case (Suc k)
  let ?rest = "filter (\<lambda>d. d \<notin> set H) (map (bday_add (next_bday cur)) [0..<k])"
  have wn: "weekday (next_bday cur) < 5" by (rule weekday_next_bday)
  show ?case
  proof (cases "length acc < n")
    case False
    with Suc.prems(2) have "length acc = n" by simp
    then show ?thesis by (subst date_loop.simps) simp
  next
    case True
    show ?thesis
    proof (cases "cur \<in> set H")
      case hol: True
      from Suc.prems(3) hol have "n - length acc \<le> length ?rest"
        by (simp add: bdays_Cons del: upt_Suc)
      from Suc.IH [OF wn Suc.prems(2) this]
      have "date_loop H n (next_bday cur) acc = acc @ take (n - length acc) ?rest" .
      moreover from True hol have "date_loop H n cur acc = date_loop H n (next_bday cur) acc"
        by (subst date_loop.simps) (simp add: bday_add_Suc bday_add_0)
      ultimately show ?thesis using hol by (simp add: bdays_Cons del: upt_Suc)
    next
      case free: False
      from True have l: "length (acc @ [cur]) \<le> n" by simp
      from Suc.prems(3) free True have "n - length (acc @ [cur]) \<le> length ?rest"
        by (simp add: bdays_Cons del: upt_Suc)
      from Suc.IH [OF wn l this]
      have "date_loop H n (next_bday cur) (acc @ [cur])
            = (acc @ [cur]) @ take (n - length (acc @ [cur])) ?rest" .
      moreover from True free Suc.prems(1)
      have "date_loop H n cur acc = date_loop H n (next_bday cur) (acc @ [cur])"
        by (subst date_loop.simps) (simp add: bday_add_Suc bday_add_0)
      moreover from True have "n - length acc = Suc (n - length (acc @ [cur]))" by simp
      ultimately show ?thesis using free by (simp add: bdays_Cons del: upt_Suc)
    qed
  qed
qed

text \<open>
  When the first \<open>n + 10\<close> business days after the anchor hold \<open>n\<close> days that are no
  holidays (with the calendar of the United States: when at most 10 of them are
  holidays), the forecast dates are the first \<open>n\<close> such days, in order.
\<close>

lemma forecast_dates_within_window:
  assumes "n \<le> length (filter (\<lambda>d. \<not> calendar d)
                    (map (bday_add (bday_add last_date 1)) [0..<n + 10]))"
  shows "forecast_dates_from calendar last_date n
         = take n (filter (\<lambda>d. \<not> calendar d)
                     (map (bday_add (bday_add last_date 1)) [0..<n + 10]))"
proof -
  let ?cur = "bday_add last_date 1"
  let ?H = "holidays_between calendar last_date (bday_add last_date (n + 10))"
  have known: "d \<notin> set ?H \<longleftrightarrow> \<not> calendar d"
    if "d \<in> set (map (bday_add ?cur) [0..<n + 10])" for d
  proof -
    from that obtain i where i: "i < n + 10" and d: "d = bday_add ?cur i" by auto
    have d': "d = bday_add last_date (Suc i)" unfolding d by (simp add: bday_add_add)
    have "last_date < d"
      unfolding d' using bday_add_less [of 0 "Suc i" last_date] by (simp add: bday_add_0)
    moreover have "d \<le> bday_add last_date (n + 10)"
    proof (cases "Suc i = n + 10")
      case True
      show ?thesis unfolding d' True by simp
    next
      case False
      with i have "Suc i < n + 10" by simp
      from bday_add_less [OF this, of last_date] show ?thesis by (simp add: d')
    qed
    ultimately show ?thesis by (simp add: holidays_between_def)
  qed
  then have same: "filter (\<lambda>d. d \<notin> set ?H) (map (bday_add ?cur) [0..<n + 10])
                   = filter (\<lambda>d. \<not> calendar d) (map (bday_add ?cur) [0..<n + 10])"
    by (intro filter_cong) simp_all
  have wd: "weekday ?cur < 5" by (simp only: bday_add_1 weekday_next_bday)
  have "length ([] :: int list) \<le> n" by simp
  moreover from assms
  have "n - length ([] :: int list)
        \<le> length (filter (\<lambda>d. d \<notin> set ?H) (map (bday_add ?cur) [0..<n + 10]))"
    by (simp only: same list.size minus_nat.diff_0)
  ultimately have "date_loop ?H n ?cur []
      = [] @ take (n - length ([] :: int list))
               (filter (\<lambda>d. d \<notin> set ?H) (map (bday_add ?cur) [0..<n + 10]))"
    by (rule date_loop_takes [OF wd])
  then have "date_loop ?H n ?cur []
      = take n (filter (\<lambda>d. \<not> calendar d) (map (bday_add ?cur) [0..<n + 10]))"
    by (simp only: same list.size minus_nat.diff_0 append_Nil)
  then show ?thesis by (simp only: forecast_dates_from_def Let_def)
qed

lemma civil_days:
  "days_from_civil 2022 12 23 = 19349" "days_from_civil 2024 1 1 = 19723"
  by (simp_all add: days_from_civil_def)

lemma federal_holidays_2023_days:
  "federal_holidays_2023 =
     [19352, 19359, 19373, 19408, 19506, 19527, 19542, 19604, 19639, 19671, 19684, 19716,
      19723, 19737]"
  by (simp add: federal_holidays_2023_def days_from_civil_def)

text \<open>
  C6, at a failing input. Anchor Friday 2022-12-23 and 255 steps: the window of
  255 + 10 business days ends on 2023-12-29 and holds twelve holidays, so only 253 of
  its days are accepted, and the loop goes on past the window, where it knows no
  holiday: New Year's Day 2024, a Monday and a federal holiday, is among the forecast
  dates. (Eleven holidays in the window are enough for this, so the same happens with
  a calendar without Juneteenth.)
\<close>

theorem forecast_dates_keep_holiday:
  "weekday (days_from_civil 2022 12 23) = 4
   \<and> calendar_2023 (days_from_civil 2024 1 1)
   \<and> days_from_civil 2024 1 1
       \<in> set (forecast_dates_from calendar_2023 (days_from_civil 2022 12 23) 255)"
proof -
  let ?hs = "[19352, 19359, 19373, 19408, 19506, 19527, 19542, 19604, 19639, 19671, 19684,
             19716] :: int list"
  let ?H = "holidays_between calendar_2023 19349 19720"
  have fri: "weekday 19349 = 4" by (simp add: weekday_def)
  have mon: "weekday 19352 = 0" by (simp add: weekday_def)
  have hol: "calendar_2023 19723"
    by (simp add: calendar_2023_def federal_holidays_2023_days)
  have first: "bday_add 19349 1 = 19352"
    using friday_window(1) [OF fri] by simp
  have "bday_add 19349 (255 + 10) = bday_add (bday_add 19349 1) (5 * 52 + 4)"
    by (simp add: bday_add_add)
  also have "\<dots> = 19352 + 7 * int 52 + int 4"
    unfolding first using mon by (intro monday_closed_form) simp_all
  finally have last: "bday_add 19349 (255 + 10) = 19720" by simp
  have run: "forecast_dates_from calendar_2023 19349 255 = date_loop ?H 255 19352 []"
    by (simp only: forecast_dates_from_def Let_def first last)
  have "bday_add 19352 (5 * 53 + 0) = 19352 + 7 * int 53 + int 0"
    using mon by (intro monday_closed_form) simp_all
  then have target: "bday_add 19352 265 = 19723" by simp
  have free: "bday_add 19352 265 \<notin> set ?H"
    by (simp add: target set_holidays_between)
  have in_H: "set ?hs \<subseteq> set ?H"
    by (simp add: set_holidays_between calendar_2023_def federal_holidays_2023_days)
  have in_days: "set ?hs \<subseteq> set (map (bday_add 19352) [0..<5 * 53])"
  proof
    fix h
    assume "h \<in> set ?hs"
    then have "19352 \<le> h \<and> h < 19352 + 7 * int 53 \<and> weekday h < 5"
      by (auto simp: weekday_def)
    with mon show "h \<in> set (map (bday_add 19352) [0..<5 * 53])"
      by (intro monday_bdays_member) simp_all
  qed
  have "distinct ?hs" by simp
  from accepted_count [OF this in_H, of 19352 "5 * 53"] in_days
  have "length (filter (\<lambda>d. d \<notin> set ?H) (map (bday_add 19352) [0..<265])) + 12 \<le> 265"
    by simp
  then have bound: "length (filter (\<lambda>d. d \<notin> set ?H) (map (bday_add 19352) [0..<265])) < 255"
    by simp
  have wd: "weekday 19352 < 5" using mon by simp
  from date_loop_reaches [OF wd bound free]
  have "19723 \<in> set (date_loop ?H 255 19352 [])" by (simp only: target)
  with run fri hol show ?thesis by (simp only: civil_days)
qed

section \<open>Properties of the stationarity transform\<close>

text \<open>
  When the test does not reject at the orders 0, 1 and 2, the loop ends at order 3
  with an array, and the last differencing raises.
\<close>

lemma cap_reached:
  assumes "adfuller (values_of series) = Inr p0" "\<not> p0 < 5 / 100"
    and "adfuller (values_of (np_diff series)) = Inr p1" "\<not> p1 < 5 / 100"
    and "adfuller (values_of (np_diff (np_diff series))) = Inr p2" "\<not> p2 < 5 / 100"
  shows "differencing_loop adfuller \<lparr>current_data = series, is_stationary = False, diff_order = 0\<rparr>
         = Inr \<lparr>current_data = np_diff (np_diff (np_diff series)), is_stationary = False, diff_order = 3\<rparr>"
  using assms by (simp add: loop_body_def differencing_loop.simps)

lemma cap_raises:
  assumes "adfuller (values_of series) = Inr p0" "\<not> p0 < 5 / 100"
    and "adfuller (values_of (np_diff series)) = Inr p1" "\<not> p1 < 5 / 100"
    and "adfuller (values_of (np_diff (np_diff series))) = Inr p2" "\<not> p2 < 5 / 100"
  shows "prepare_series adfuller series = Inl AttributeError"
  using cap_reached [OF assms] by (simp add: prepare_series_def np_diff_def)

text \<open>
  What the loop returns: the data differenced as often as the order says, and either
  stationarity below order 3 or order 3. Hence every series that
  \<open>prepare_series\<close> returns has been differenced at most twice.
\<close>

lemma loop_body_cases:
  assumes "loop_body adfuller st = Inr st1"
  shows "st1 = st\<lparr>is_stationary := True\<rparr>
         \<or> st1 = st\<lparr>current_data := np_diff (current_data st), diff_order := diff_order st + 1\<rparr>"
  using assms by (auto simp: loop_body_def split: sum.splits if_splits)

lemma differencing_loop_result:
  assumes "differencing_loop adfuller st = Inr st'"
  shows "diff_order st \<le> diff_order st'
     \<and> current_data st' = (np_diff ^^ (diff_order st' - diff_order st)) (current_data st)
     \<and> (is_stationary st' \<or> 3 \<le> diff_order st')
     \<and> (is_stationary st \<longrightarrow> st' = st)
     \<and> (\<not> is_stationary st \<longrightarrow> is_stationary st' \<longrightarrow> diff_order st' < 3)"
  using assms
proof (induction adfuller st rule: differencing_loop.induct)
  case (1 adfuller st)
  show ?case
  proof (cases "\<not> is_stationary st \<and> diff_order st < 3")
    case False
    with "1.prems" have "st' = st" by (simp add: differencing_loop.simps [of adfuller st])
    with False show ?thesis by auto
  next
    case True
    with "1.prems" obtain st1 where b: "loop_body adfuller st = Inr st1"
      and r: "differencing_loop adfuller st1 = Inr st'"
      by (auto simp: differencing_loop.simps [of adfuller st] split: sum.splits)
    note IH = "1.IH" [OF True b r]
    from loop_body_cases [OF b] show ?thesis
    proof
      assume s1: "st1 = st\<lparr>is_stationary := True\<rparr>"
      with IH have "st' = st1" by simp
      with s1 True show ?thesis by simp
    next
      assume s1: "st1 = st\<lparr>current_data := np_diff (current_data st),
                           diff_order := diff_order st + 1\<rparr>"
      with IH have le: "Suc (diff_order st) \<le> diff_order st'"
        and cur: "current_data st'
                  = (np_diff ^^ (diff_order st' - Suc (diff_order st))) (np_diff (current_data st))"
        and fin: "is_stationary st' \<or> 3 \<le> diff_order st'"
        by simp_all
      from le obtain k where k: "diff_order st' - diff_order st = Suc k"
        "diff_order st' - Suc (diff_order st) = k"
        by (metis Suc_diff_le diff_Suc_Suc)
      from cur have c: "current_data st' = (np_diff ^^ (diff_order st' - diff_order st)) (current_data st)"
        unfolding k by (simp add: funpow_swap1)
      from IH s1 True have "is_stationary st' \<longrightarrow> diff_order st' < 3" by simp
      with le c fin True show ?thesis by simp
    qed
  qed
qed

lemma prepare_series_returns:
  assumes "prepare_series adfuller series = Inr r"
  shows "r = series \<or> r = np_diff series \<or> r = np_diff (np_diff series)"
proof -
  let ?start = "\<lparr>current_data = series, is_stationary = False, diff_order = 0\<rparr>"
  from assms obtain st where run: "differencing_loop adfuller ?start = Inr st"
    by (auto simp: prepare_series_def split: sum.splits)
  from differencing_loop_result [OF run]
  have cur: "current_data st = (np_diff ^^ diff_order st) series"
    and fin: "is_stationary st \<or> 3 \<le> diff_order st"
    and ord: "is_stationary st \<longrightarrow> diff_order st < 3"
    by simp_all
  have st: "is_stationary st"
  proof (rule ccontr)
    assume ns: "\<not> is_stationary st"
    with fin obtain k where "diff_order st = Suc k" by (cases "diff_order st") simp_all
    with cur have "current_data st = np_diff ((np_diff ^^ k) series)" by simp
    with assms run ns show False by (simp add: prepare_series_def np_diff_def)
  qed
  with assms run have r: "r = current_data st" by (simp add: prepare_series_def)
  from st ord have "diff_order st = 0 \<or> diff_order st = 1 \<or> diff_order st = 2" by auto
  with cur r show ?thesis by (auto simp: numeral_2_eq_2)
qed

text \<open>
  C5, where the code fails it. Whenever the ADF test does not reject for the series of
  the first ticker, for its differences and for its second differences, the loop
  reaches the cap of 3 differences, and \<open>prepare_stationary_data\<close> raises
  AttributeError instead of returning the three times differenced series.
\<close>

theorem prepare_stationary_data_cap_raises:
  assumes "data ticker = Some series"
    and "adfuller (values_of series) = Inr p0" and "5 / 100 \<le> p0"
    and "adfuller (values_of (np_diff series)) = Inr p1" and "5 / 100 \<le> p1"
    and "adfuller (values_of (np_diff (np_diff series))) = Inr p2" and "5 / 100 \<le> p2"
  shows "prepare_stationary_data adfuller data (ticker # rest) = Inl AttributeError"
proof -
  from assms(3,5,7) have "\<not> p0 < 5 / 100" "\<not> p1 < 5 / 100" "\<not> p2 < 5 / 100"
    by simp_all
  with assms(2,4,6) have "prepare_series adfuller series = Inl AttributeError"
    by (intro cap_raises)
  with assms(1) show ?thesis by (simp add: prepare_stationary_data_def)
qed

theorem prepare_stationary_data_cap_raises_witness:
  "prepare_stationary_data (\<lambda>xs. Inr (1 / 2))
      [''Alphabet'' \<mapsto> Series [100, 101, 103, 106, 110, 115]] [''Alphabet'']
   = Inl AttributeError"
proof -
  let ?data = "[''Alphabet'' \<mapsto> Series [100, 101, 103, 106, 110, 115]]"
  let ?adf = "\<lambda>xs :: real list. Inr (1 / 2) :: error + real"
  have d: "?data ''Alphabet'' = Some (Series [100, 101, 103, 106, 110, 115])" by simp
  have p: "(5 :: real) / 100 \<le> 1 / 2" by simp
  show ?thesis
    by (rule prepare_stationary_data_cap_raises [of ?data _ _ ?adf, OF d _ p _ p _ p])
      simp_all
qed

text \<open>
  C10. A series whose ADF p-value is exactly 0.05 is stationary for
  \<open>check_stationarity\<close>, while the loop of \<open>prepare_stationary_data\<close> takes it for
  non-stationary: its first pass differences the series and goes on from order 1.
\<close>

theorem boundary_p_value_inconsistent:
  assumes "adfuller (values_of series) = Inr (5 / 100)"
  shows "check_stationarity adfuller series = Inr (True, 5 / 100)
   \<and> loop_body adfuller \<lparr>current_data = series, is_stationary = False, diff_order = 0\<rparr>
       = Inr \<lparr>current_data = np_diff series, is_stationary = False, diff_order = 1\<rparr>
   \<and> differencing_loop adfuller
        \<lparr>current_data = series, is_stationary = False, diff_order = 0\<rparr>
       = differencing_loop adfuller
           \<lparr>current_data = np_diff series, is_stationary = False, diff_order = 1\<rparr>"
  using assms
  by (simp add: check_stationarity_def loop_body_def
      differencing_loop.simps [of _ "\<lparr>current_data = series, is_stationary = False, diff_order = 0\<rparr>"])

theorem boundary_p_value_inconsistent_witness:
  "check_stationarity (\<lambda>xs. Inr (5 / 100)) (Series [1, 2, 4]) = Inr (True, 5 / 100)
   \<and> loop_body (\<lambda>xs. Inr (5 / 100))
        \<lparr>current_data = Series [1, 2, 4], is_stationary = False, diff_order = 0\<rparr>
       = Inr \<lparr>current_data = NDArray [1, 2], is_stationary = False, diff_order = 1\<rparr>"
proof -
  have h: "(\<lambda>xs. Inr (5 / 100) :: error + real) (values_of (Series [1, 2, 4])) = Inr (5 / 100)"
    by simp
  from boundary_p_value_inconsistent [of "\<lambda>xs. Inr (5 / 100)" "Series [1, 2, 4]", OF h]
  show ?thesis by (simp add: np_diff_def diffs_def)
qed

section \<open>Properties of the stored weighted forecasts\<close>

lemma calculate_returns:
  assumes "length weights = length (rows m)"
  shows "\<exists>ys. snd (calculate_threshold_weighted_forecast m weights t) = Inr ys"
proof (cases "\<exists>w \<in> set weights. t \<le> w")
  case True
  from threshold_weighting_selected [OF assms True] show ?thesis by simp
next
  case False
  then have "\<forall>w \<in> set weights. w < t" by auto
  from threshold_weighting_fallback [OF assms this] show ?thesis by simp
qed

text \<open>
  C9, as amended. For a path matrix with one score per path: main.py stores as
  \<open>threshold_weighted_forecast\<close> the weighting at the fixed threshold 2 and as
  \<open>chatgpt_weighted_forecast\<close> the weighting at the threshold the caller supplies,
  which it records as \<open>chatgpt_threshold\<close>; the recalculation of fix\_forecasts.py
  stores the weighting at the fixed threshold 4 and the weighting at the
  \<open>chatgpt_threshold\<close> of the file (6 when the file has none). Each field holds the
  result of its own call.
\<close>

theorem weighted_forecast_fields:
  assumes len: "length probabilities = length (rows paths)"
    and ne: "rows paths \<noteq> []"
    and sp: "simulated_paths fd = Some paths"
    and af: "arima_forecast fd = Some entries"
  shows "\<exists>fixed2 fixed4 chat stored.
     snd (calculate_threshold_weighted_forecast paths probabilities 2) = Inr fixed2
   \<and> snd (calculate_threshold_weighted_forecast paths probabilities 4) = Inr fixed4
   \<and> snd (calculate_threshold_weighted_forecast paths probabilities t) = Inr chat
   \<and> snd (calculate_threshold_weighted_forecast paths probabilities
            (case chatgpt_threshold fd of None \<Rightarrow> 6 | Some t0 \<Rightarrow> t0)) = Inr stored
   \<and> snd (main_weighted_forecasts paths probabilities t (Some fd))
       = Inr (Some (fd\<lparr>weighted_forecast := None,
                        threshold_weighted_forecast := Some fixed2,
                        chatgpt_weighted_forecast := Some chat,
                        chatgpt_threshold := Some t\<rparr>))
   \<and> snd (recalculate_weighted_forecasts fd (Some probabilities))
       = fd\<lparr>arima_forecast := Some (update_entries fixed4 stored entries),
             threshold_weighted_forecast := Some fixed4,
             chatgpt_weighted_forecast := Some stored\<rparr>"
proof -
  let ?t0 = "case chatgpt_threshold fd of None \<Rightarrow> 6 | Some t0 \<Rightarrow> t0"
  from calculate_returns [OF len] obtain fixed2 fixed4 chat stored
    where r: "snd (calculate_threshold_weighted_forecast paths probabilities 2) = Inr fixed2"
      "snd (calculate_threshold_weighted_forecast paths probabilities 4) = Inr fixed4"
      "snd (calculate_threshold_weighted_forecast paths probabilities t) = Inr chat"
      "snd (calculate_threshold_weighted_forecast paths probabilities ?t0) = Inr stored"
    by meson
  have m: "snd (main_weighted_forecasts paths probabilities t (Some fd))
       = Inr (Some (fd\<lparr>weighted_forecast := None,
                        threshold_weighted_forecast := Some fixed2,
                        chatgpt_weighted_forecast := Some chat,
                        chatgpt_threshold := Some t\<rparr>))"
    using r(1,3) by (auto simp: main_weighted_forecasts_def split: prod.splits sum.splits)
  have f: "snd (recalculate_weighted_forecasts fd (Some probabilities))
       = fd\<lparr>arima_forecast := Some (update_entries fixed4 stored entries),
             threshold_weighted_forecast := Some fixed4,
             chatgpt_weighted_forecast := Some stored\<rparr>"
    using r(2,4) ne sp af
    by (auto simp: recalculate_weighted_forecasts_def Let_def split: prod.splits sum.splits)
  from r m f show ?thesis by blast
qed

lemma example_weightings:
  "calculate_threshold_weighted_forecast example_paths [3, 5] 2 = ([], Inr [Num 15])"
  "calculate_threshold_weighted_forecast example_paths [3, 5] 4 = ([], Inr [Num 20])"
  "calculate_threshold_weighted_forecast example_paths [3, 5] 5 = ([], Inr [Num 20])"
  by (simp_all add: calculate_threshold_weighted_forecast_def threshold_mask_def any_true_def
      mask_select_def average_axis0_def example_paths_def)

text \<open>
  C9 as stated fails on main.py: with paths [[10],[20]] and scores [3,5] it stores the
  weighting at threshold 2, [15], where the weighting at threshold 4 is [20].
\<close>

theorem main_fixed_threshold_is_2:
  "snd (main_weighted_forecasts example_paths [3, 5] 5 (Some example_file))
     = Inr (Some (example_file\<lparr>threshold_weighted_forecast := Some [Num 15],
                               chatgpt_weighted_forecast := Some [Num 20],
                               chatgpt_threshold := Some 5\<rparr>))
   \<and> snd (calculate_threshold_weighted_forecast example_paths [3, 5] 4) = Inr [Num 20]
   \<and> [Num 15] \<noteq> [Num 20]"
  by (simp add: main_weighted_forecasts_def example_weightings example_file_def)

theorem weighted_forecast_fields_witness:
  "length [3, 5 :: real] = length (rows example_paths)
   \<and> threshold_weighted_forecast
        (snd (recalculate_weighted_forecasts example_file (Some [3, 5]))) = Some [Num 20]
   \<and> chatgpt_weighted_forecast
        (snd (recalculate_weighted_forecasts example_file (Some [3, 5]))) = Some [Num 20]
   \<and> snd (main_weighted_forecasts example_paths [3, 5] 7 (Some example_file))
       = Inr (Some (example_file\<lparr>threshold_weighted_forecast := Some [Num 15],
                                 chatgpt_weighted_forecast := Some [Num 15],
                                 chatgpt_threshold := Some 7\<rparr>))"
proof -
  have len: "length [3, 5 :: real] = length (rows example_paths)"
    by (simp add: example_paths_def)
  have ne: "rows example_paths \<noteq> []" by (simp add: example_paths_def)
  have sp: "simulated_paths example_file = Some example_paths"
    by (simp add: example_file_def)
  have af: "arima_forecast example_file
            = Some [\<lparr>entry_date = ''2024-01-02'', entry_arima_forecast = 12,
                      entry_threshold_weighted_forecast = None,
                      entry_chatgpt_weighted_forecast = None\<rparr>]"
    by (simp add: example_file_def)
  have seven: "calculate_threshold_weighted_forecast example_paths [3, 5] 7
               = ([No_paths_meet_threshold 7], Inr [Num 15])"
    by (simp add: calculate_threshold_weighted_forecast_def threshold_mask_def any_true_def
        ones_like_def mask_select_def average_axis0_def example_paths_def)
  have stored: "(case chatgpt_threshold example_file of None \<Rightarrow> 6 | Some t0 \<Rightarrow> t0) = 5"
    by (simp add: example_file_def)
  from weighted_forecast_fields [OF len ne sp af, of 7]
  obtain fixed2 fixed4 chat kept where
    r: "snd (calculate_threshold_weighted_forecast example_paths [3, 5] 2) = Inr fixed2"
      "snd (calculate_threshold_weighted_forecast example_paths [3, 5] 4) = Inr fixed4"
      "snd (calculate_threshold_weighted_forecast example_paths [3, 5] 7) = Inr chat"
      "snd (calculate_threshold_weighted_forecast example_paths [3, 5] 5) = Inr kept"
    and m: "snd (main_weighted_forecasts example_paths [3, 5] 7 (Some example_file))
       = Inr (Some (example_file\<lparr>weighted_forecast := None,
                        threshold_weighted_forecast := Some fixed2,
                        chatgpt_weighted_forecast := Some chat,
                        chatgpt_threshold := Some 7\<rparr>))"
    and f: "snd (recalculate_weighted_forecasts example_file (Some [3, 5]))
       = example_file\<lparr>arima_forecast := Some (update_entries fixed4 kept
               [\<lparr>entry_date = ''2024-01-02'', entry_arima_forecast = 12,
                 entry_threshold_weighted_forecast = None,
                 entry_chatgpt_weighted_forecast = None\<rparr>]),
             threshold_weighted_forecast := Some fixed4,
             chatgpt_weighted_forecast := Some kept\<rparr>"
    unfolding stored by blast
  from r have v: "fixed2 = [Num 15]" "fixed4 = [Num 20]" "chat = [Num 15]" "kept = [Num 20]"
    by (simp_all add: example_weightings seven)
  have "weighted_forecast example_file = None" by (simp add: example_file_def)
  with m f v len show ?thesis by simp
qed

end
